theory Spec2Isabelle
  imports Main
begin

section \<open>The book library: catalog store, file placement, conversion\<close>

text \<open>
  A shallow embedding of \<^verbatim>\<open>library.go\<close> (package \<^verbatim>\<open>books\<close>). The Go standard
  library, the SQL engine and the operating system are the environment of that file:
  each call into them is a small function of its own, named after the Go function, and
  the library's functions are written on top of them in the order of the source. The
  lines that the functions write to the log are left out.
\<close>

subsection \<open>Package strings and strconv\<close>

text \<open>\<^verbatim>\<open>strings.Join(elems, sep)\<close>: empty for no element, the element for one.\<close>

fun strings_Join :: "string list \<Rightarrow> string \<Rightarrow> string" where
  "strings_Join [] sep = []"
| "strings_Join [x] sep = x"
| "strings_Join (x # y # ys) sep = x @ sep @ strings_Join (y # ys) sep"

definition strings_HasPrefix :: "string \<Rightarrow> string \<Rightarrow> bool" where
  "strings_HasPrefix s p = (take (length p) s = p)"

definition strings_HasSuffix :: "string \<Rightarrow> string \<Rightarrow> bool" where
  "strings_HasSuffix s suf = (length suf \<le> length s \<and> drop (length s - length suf) s = suf)"

definition strings_TrimSuffix :: "string \<Rightarrow> string \<Rightarrow> string" where
  "strings_TrimSuffix s suf =
     (if strings_HasSuffix s suf then take (length s - length suf) s else s)"

text \<open>
  \<^verbatim>\<open>strings.Split(s, sep)\<close> is \<^verbatim>\<open>genSplit(s, sep, 0, -1)\<close>: cut at each occurrence of
  \<open>sep\<close>, left to right, and finish with what remains, so the result of a non-empty
  separator is never the empty slice. \<open>cur\<close> is the piece read so far. With an empty
  separator Go splits after each UTF-8 sequence; the library never does that, and the
  model splits after each byte.
\<close>

fun genSplit :: "string \<Rightarrow> string \<Rightarrow> string \<Rightarrow> string list" where
  "genSplit sep cur [] = [cur]"
| "genSplit sep cur (c # cs) =
     (if sep \<noteq> [] \<and> strings_HasPrefix (c # cs) sep
      then cur # genSplit sep [] (drop (length sep) (c # cs))
      else genSplit sep (cur @ [c]) cs)"

definition strings_Split :: "string \<Rightarrow> string \<Rightarrow> string list" where
  "strings_Split s sep = (if sep = [] then map (\<lambda>c. [c]) s else genSplit sep [] s)"

text \<open>
  \<^verbatim>\<open>strconv.Itoa\<close>: decimal digits, most significant first, a minus sign for a
  negative number. Go's \<^verbatim>\<open>int\<close> is 64 bits wide; the counters and ids printed here
  start at 1 and grow by one, and are modelled as unbounded integers.
\<close>

definition digit :: "nat \<Rightarrow> char" where
  "digit d = ''0123456789'' ! d"

function formatBits :: "nat \<Rightarrow> string" where
  "formatBits n = (if n < 10 then [digit n] else formatBits (n div 10) @ [digit (n mod 10)])"
  by pat_completeness auto
termination
  by (relation "measure id") auto

definition strconv_Itoa :: "int \<Rightarrow> string" where
  "strconv_Itoa i = (if i < 0 then CHR ''-'' # formatBits (nat (- i)) else formatBits (nat i))"

subsection \<open>Package path\<close>

text \<open>
  \<^verbatim>\<open>path.Clean\<close> reads the path element by element and keeps a stack of the elements
  of the result (here with the last element first): an empty element and \<^verbatim>\<open>.\<close> are
  dropped, \<^verbatim>\<open>..\<close> removes the element before it when there is one that is not itself
  \<^verbatim>\<open>..\<close>, is dropped at the root, and is kept otherwise. The empty result is \<^verbatim>\<open>.\<close>.
\<close>

fun clean_elem :: "bool \<Rightarrow> string list \<Rightarrow> string \<Rightarrow> string list" where
  "clean_elem rooted st e =
     (if e = [] \<or> e = ''.'' then st
      else if e = ''..'' then
        (case st of
           [] \<Rightarrow> if rooted then [] else [''..'']
         | t # ts \<Rightarrow> if t = ''..'' then ''..'' # st else ts)
      else e # st)"

definition path_Clean :: "string \<Rightarrow> string" where
  "path_Clean p =
     (if p = [] then ''.''
      else
        let rooted = (hd p = CHR ''/'');
            st = rev (foldl (clean_elem rooted) [] (genSplit ''/'' [] p))
        in if rooted then CHR ''/'' # strings_Join st ''/''
           else if st = [] then ''.''
           else strings_Join st ''/'')"

text \<open>\<^verbatim>\<open>path.Split\<close> cuts after the final slash; \<^verbatim>\<open>path.Dir\<close> cleans the first part.\<close>

definition path_Split :: "string \<Rightarrow> string \<times> string" where
  "path_Split p =
     (rev (dropWhile (\<lambda>c. c \<noteq> CHR ''/'') (rev p)), rev (takeWhile (\<lambda>c. c \<noteq> CHR ''/'') (rev p)))"

definition path_Dir :: "string \<Rightarrow> string" where
  "path_Dir p = path_Clean (fst (path_Split p))"

text \<open>\<^verbatim>\<open>path.Join\<close> ignores empty elements and cleans the rest joined by slashes.\<close>

definition path_Join :: "string list \<Rightarrow> string" where
  "path_Join elem =
     (let es = filter (\<lambda>e. e \<noteq> []) elem
      in if es = [] then [] else path_Clean (strings_Join es ''/''))"

text \<open>
  \<^verbatim>\<open>path.Ext\<close> walks back from the end of the path to the final slash and returns the
  suffix that starts at the first dot it meets. \<open>seen\<close> is what lies behind the
  position of the walk.
\<close>

fun ext_scan :: "string \<Rightarrow> string \<Rightarrow> string" where
  "ext_scan [] seen = []"
| "ext_scan (c # cs) seen =
     (if c = CHR ''/'' then []
      else if c = CHR ''.'' then c # seen
      else ext_scan cs (c # seen))"

definition path_Ext :: "string \<Rightarrow> string" where
  "path_Ext p = ext_scan (rev p) []"

subsection \<open>Errors\<close>

text \<open>
  A Go \<^verbatim>\<open>error\<close> is \<open>error option\<close>, \<open>None\<close> for \<^verbatim>\<open>nil\<close>. An error names the
  call that reported it. \<^verbatim>\<open>errors.Wrap\<close> and \<^verbatim>\<open>errors.Wrapf\<close> of
  \<^verbatim>\<open>github.com/pkg/errors\<close> annotate an error with a message, and return \<^verbatim>\<open>nil\<close>
  when they are given \<^verbatim>\<open>nil\<close>.
\<close>

type_synonym time = int

datatype syscall =
    Sys_MkdirAll string
  | Sys_Rename string string
  | Sys_Open string
  | Sys_FileStat string
  | Sys_Create string
  | Sys_Copy string string
  | Sys_CloseWriter string
  | Sys_CloseReader string
  | Sys_Chtimes string time time
  | Sys_Remove string
  | Sys_Stat string
  | Sys_Run string "string list"

datatype db_call =
    Db_Begin
  | Db_Query_hash
  | Db_Exec_books
  | Db_LastInsertId
  | Db_Exec_books_fts
  | Db_Commit
  | Db_Query_match
  | Db_Query_ids

datatype error =
    OsError syscall
  | ExitError nat
  | DbError db_call
  | RowsError db_call
  | ScanError string
  | Errorf string
  | Wrap error string

fun errors_Wrap :: "error option \<Rightarrow> string \<Rightarrow> error option" where
  "errors_Wrap None message = None"
| "errors_Wrap (Some err) message = Some (Wrap err message)"

subsection \<open>The environment\<close>

text \<open>
  What the operating system, the SQL engine and the converter decide by themselves is a
  parameter of the model:
  \<^item> \<open>os_fault c\<close>: the system refuses the call \<open>c\<close> for a reason outside the model
    (permissions, another volume, a missing parent directory, an I/O error);
  \<^item> \<open>short_copy\<close>: the bytes that reach the destination before a refused copy stops;
  \<^item> \<open>clock\<close>: the time of the run, returned by \<^verbatim>\<open>time.Now\<close> and stamped on written
    files and rows;
  \<^item> \<open>db_fault c\<close>: the SQL engine reports an error for the statement \<open>c\<close>;
  \<^item> \<open>rows_fault c\<close>: \<open>Some k\<close> when the cursor of the query \<open>c\<close> breaks after \<open>k\<close>
    rows (\<^verbatim>\<open>rows.Next\<close> is false from then on and \<^verbatim>\<open>rows.Err\<close> is not nil);
  \<^item> \<open>fts_match\<close>: the full-text engine, from a query and the index rows to the
    matching docids in the order in which the engine yields them (the \<^verbatim>\<open>fts4\<close> table of
    \<^verbatim>\<open>initialSchema\<close>, declared without an order option, yields them by ascending
    docid; a property that depends on the order says which order it takes);
  \<^item> \<open>run_exit\<close>: the outcome of a subprocess, \<open>None\<close> when it could not be started
    and \<open>Some code\<close> with its exit code otherwise.
\<close>

text \<open>A row of the index table \<^verbatim>\<open>books_fts\<close>, which the full-text engine reads.\<close>

record fts_row =
  fts_docid :: int
  fts_author :: string
  fts_series :: string
  fts_title :: string
  fts_extension :: string
  fts_tags :: string
  fts_filename :: string
  fts_source :: string

record env =
  os_fault :: "syscall \<Rightarrow> bool"
  short_copy :: nat
  clock :: time
  db_fault :: "db_call \<Rightarrow> bool"
  rows_fault :: "db_call \<Rightarrow> nat option"
  fts_match :: "string \<Rightarrow> fts_row list \<Rightarrow> int list"
  run_exit :: "string \<Rightarrow> string list \<Rightarrow> nat option"

subsection \<open>The file system\<close>

text \<open>
  Regular files by path, with their bytes and modification time; the directories made
  by the library; and the calls issued so far, oldest first. A path is the string the
  call was given: two spellings of one file are two paths. Every call that changes the
  file system or starts a process, and every call on an open file, is recorded before it
  is answered, so a run that leaves \<open>trace\<close> as it was has issued none of them.
  \<^verbatim>\<open>os.Stat\<close> by path only reads and is not recorded. Opening, renaming and removing
  are modelled for regular files: on any other path they report an error.
\<close>

record inode =
  f_data :: string
  f_mtime :: time

record os_state =
  files :: "string \<rightharpoonup> inode"
  dirs :: "string set"
  trace :: "syscall list"

definition issue :: "syscall \<Rightarrow> os_state \<Rightarrow> os_state" where
  "issue c os = os\<lparr>trace := trace os @ [c]\<rparr>"

definition os_MkdirAll :: "env \<Rightarrow> string \<Rightarrow> os_state \<Rightarrow> error option \<times> os_state" where
  "os_MkdirAll env p os =
     (let os1 = issue (Sys_MkdirAll p) os
      in if os_fault env (Sys_MkdirAll p) \<or> p \<in> dom (files os)
         then (Some (OsError (Sys_MkdirAll p)), os1)
         else (None, os1\<lparr>dirs := insert p (dirs os1)\<rparr>))"

definition os_Rename :: "env \<Rightarrow> string \<Rightarrow> string \<Rightarrow> os_state \<Rightarrow> error option \<times> os_state" where
  "os_Rename env src dst os =
     (let os1 = issue (Sys_Rename src dst) os
      in case files os src of
           None \<Rightarrow> (Some (OsError (Sys_Rename src dst)), os1)
         | Some f \<Rightarrow>
             if os_fault env (Sys_Rename src dst) \<or> dst \<in> dirs os
             then (Some (OsError (Sys_Rename src dst)), os1)
             else (None, os1\<lparr>files := ((files os)(src := None))(dst \<mapsto> f)\<rparr>))"

definition os_Open :: "env \<Rightarrow> string \<Rightarrow> os_state \<Rightarrow> error option \<times> os_state" where
  "os_Open env src os =
     (let os1 = issue (Sys_Open src) os
      in if os_fault env (Sys_Open src) \<or> src \<notin> dom (files os)
         then (Some (OsError (Sys_Open src)), os1)
         else (None, os1))"

text \<open>\<^verbatim>\<open>fp.Stat()\<close> on the open source: its modification time.\<close>

definition file_Stat :: "env \<Rightarrow> string \<Rightarrow> os_state \<Rightarrow> (error + time) \<times> os_state" where
  "file_Stat env src os =
     (let os1 = issue (Sys_FileStat src) os
      in case files os src of
           None \<Rightarrow> (Inl (OsError (Sys_FileStat src)), os1)
         | Some f \<Rightarrow>
             if os_fault env (Sys_FileStat src)
             then (Inl (OsError (Sys_FileStat src)), os1)
             else (Inr (f_mtime f), os1))"

text \<open>\<^verbatim>\<open>os.Create\<close> makes the file or truncates it; either way it is written now.\<close>

definition os_Create :: "env \<Rightarrow> string \<Rightarrow> os_state \<Rightarrow> error option \<times> os_state" where
  "os_Create env dst os =
     (let os1 = issue (Sys_Create dst) os
      in if os_fault env (Sys_Create dst) \<or> dst \<in> dirs os
         then (Some (OsError (Sys_Create dst)), os1)
         else (None, os1\<lparr>files := (files os)(dst \<mapsto> \<lparr>f_data = [], f_mtime = clock env\<rparr>)\<rparr>))"

text \<open>
  \<^verbatim>\<open>io.Copy(fd, fp)\<close> reads what the source holds at this moment (after the
  destination was created, so nothing when both are one file) and writes it to the
  destination.
\<close>

definition io_Copy :: "env \<Rightarrow> string \<Rightarrow> string \<Rightarrow> os_state \<Rightarrow> error option \<times> os_state" where
  "io_Copy env src dst os =
     (let os1 = issue (Sys_Copy src dst) os
      in case files os src of
           None \<Rightarrow> (Some (OsError (Sys_Copy src dst)), os1)
         | Some f \<Rightarrow>
             if os_fault env (Sys_Copy src dst)
             then (Some (OsError (Sys_Copy src dst)),
                   os1\<lparr>files := (files os)(dst \<mapsto>
                          \<lparr>f_data = take (short_copy env) (f_data f), f_mtime = clock env\<rparr>)\<rparr>)
             else (None,
                   os1\<lparr>files := (files os)(dst \<mapsto> \<lparr>f_data = f_data f, f_mtime = clock env\<rparr>)\<rparr>))"

definition file_Close :: "env \<Rightarrow> syscall \<Rightarrow> os_state \<Rightarrow> error option \<times> os_state" where
  "file_Close env c os =
     (if os_fault env c then (Some (OsError c), issue c os) else (None, issue c os))"

definition os_Chtimes :: "env \<Rightarrow> string \<Rightarrow> time \<Rightarrow> time \<Rightarrow> os_state \<Rightarrow> error option \<times> os_state" where
  "os_Chtimes env p atime mtime os =
     (let os1 = issue (Sys_Chtimes p atime mtime) os
      in case files os p of
           None \<Rightarrow> (Some (OsError (Sys_Chtimes p atime mtime)), os1)
         | Some f \<Rightarrow>
             if os_fault env (Sys_Chtimes p atime mtime)
             then (Some (OsError (Sys_Chtimes p atime mtime)), os1)
             else (None, os1\<lparr>files := (files os)(p \<mapsto> f\<lparr>f_mtime := mtime\<rparr>)\<rparr>))"

definition os_Remove :: "env \<Rightarrow> string \<Rightarrow> os_state \<Rightarrow> error option \<times> os_state" where
  "os_Remove env p os =
     (let os1 = issue (Sys_Remove p) os
      in if os_fault env (Sys_Remove p) \<or> p \<notin> dom (files os)
         then (Some (OsError (Sys_Remove p)), os1)
         else (None, os1\<lparr>files := (files os)(p := None)\<rparr>))"

text \<open>\<^verbatim>\<open>os.Stat\<close> by path only reads: it succeeds on a file or directory that is there.\<close>

definition present :: "os_state \<Rightarrow> string \<Rightarrow> bool" where
  "present os p = (p \<in> dom (files os) \<or> p \<in> dirs os)"

definition os_Stat :: "env \<Rightarrow> os_state \<Rightarrow> string \<Rightarrow> error option" where
  "os_Stat env os p =
     (if os_fault env (Sys_Stat p) \<or> \<not> present os p then Some (OsError (Sys_Stat p)) else None)"

text \<open>
  \<^verbatim>\<open>cmd.Run()\<close> of \<^verbatim>\<open>exec.Command(name, args...)\<close>: nil when the process started and
  exited with code zero. What the process does to the files is its own business.
\<close>

definition cmd_Run :: "env \<Rightarrow> string \<Rightarrow> string list \<Rightarrow> os_state \<Rightarrow> error option \<times> os_state" where
  "cmd_Run env name args os =
     (let os1 = issue (Sys_Run name args) os
      in case run_exit env name args of
           None \<Rightarrow> (Some (OsError (Sys_Run name args)), os1)
         | Some code \<Rightarrow> if code = 0 then (None, os1) else (Some (ExitError code), os1))"

subsection \<open>Books and the library handle\<close>

text \<open>
  Modelled from the spec: the declaration of \<^verbatim>\<open>type Book struct\<close> is not among the
  source files. The fields are the ones \<^verbatim>\<open>library.go\<close> reads and writes, with the
  types of section 3 of the specification; \<open>Id'\<close> is the field \<^verbatim>\<open>Id\<close>.
\<close>

record Book =
  Id' :: int
  Author :: string
  Series :: string
  Title :: string
  Extension :: string
  Tags :: "string list"
  OriginalFilename :: string
  CurrentFilename :: string
  FileSize :: int
  FileMtime :: time
  Hash :: string
  RegexpName :: string
  Source :: string

text \<open>The value of \<^verbatim>\<open>Book{}\<close>: every field zero, the tags the nil slice.\<close>

definition Book_zero :: Book where
  "Book_zero =
     \<lparr>Id' = 0, Author = [], Series = [], Title = [], Extension = [], Tags = [],
      OriginalFilename = [], CurrentFilename = [], FileSize = 0, FileMtime = 0,
      Hash = [], RegexpName = [], Source = []\<rparr>"

text \<open>
  \<^verbatim>\<open>Library\<close> embeds the database handle and carries two paths. The handle is the
  \<open>database\<close> value that the functions below take and return.
\<close>

record Library =
  filename :: string
  booksRoot :: string

subsection \<open>File placement\<close>

text \<open>
  \<^verbatim>\<open>copyFile\<close>: open the source, read its file info, create the destination, copy.
  The deferred function closes the destination, turns a failed close into the result
  \<open>e\<close>, then calls \<^verbatim>\<open>os.Chtimes\<close> and drops what it returns; the deferred
  \<^verbatim>\<open>fp.Close()\<close> runs last.
\<close>

definition copyFile :: "env \<Rightarrow> string \<Rightarrow> string \<Rightarrow> os_state \<Rightarrow> error option \<times> os_state" where
  "copyFile env src dst os =
     (case os_Open env src os of
        (Some err, os1) \<Rightarrow> (errors_Wrap (Some err) ''Copy file'', os1)
      | (None, os1) \<Rightarrow>
          (case file_Stat env src os1 of
             (Inl err, os2) \<Rightarrow>
               (errors_Wrap (Some err) ''Copy file'',
                snd (file_Close env (Sys_CloseReader src) os2))
           | (Inr st_ModTime, os2) \<Rightarrow>
               (case os_Create env dst os2 of
                  (Some err, os3) \<Rightarrow>
                    (errors_Wrap (Some err) ''Copy file'',
                     snd (file_Close env (Sys_CloseReader src) os3))
                | (None, os3) \<Rightarrow>
                    (let (copied, os4) = io_Copy env src dst os3;
                         e = (case copied of
                                Some err \<Rightarrow> errors_Wrap (Some err) ''Copy file''
                              | None \<Rightarrow> None);
                         (closed, os5) = file_Close env (Sys_CloseWriter dst) os4;
                         e = (case closed of
                                Some err \<Rightarrow> errors_Wrap (Some err) ''Copy file''
                              | None \<Rightarrow> e);
                         (_, os6) = os_Chtimes env dst (clock env) st_ModTime os5;
                         (_, os7) = file_Close env (Sys_CloseReader src) os6
                     in (e, os7)))))"

text \<open>
  \<^verbatim>\<open>moveFile\<close>: rename, and when that fails copy and delete. A source that cannot be
  removed after the copy is logged and the result is nil.
\<close>

definition moveFile :: "env \<Rightarrow> string \<Rightarrow> string \<Rightarrow> os_state \<Rightarrow> error option \<times> os_state" where
  "moveFile env src dst os =
     (case os_Rename env src dst os of
        (Some err, os1) \<Rightarrow>
          (case copyFile env src dst os1 of
             (Some err, os2) \<Rightarrow> (Some err, os2)
           | (None, os2) \<Rightarrow>
               (case os_Remove env src os2 of
                  (Some err, os3) \<Rightarrow> (None, os3)
                | (None, os3) \<Rightarrow> (None, os3)))
      | (None, os1) \<Rightarrow> (None, os1))"

definition moveOrCopyFile ::
  "env \<Rightarrow> Library \<Rightarrow> Book \<Rightarrow> bool \<Rightarrow> os_state \<Rightarrow> error option \<times> os_state" where
  "moveOrCopyFile env lib book move os =
     (let newName = CurrentFilename book;
          newPath = path_Join [booksRoot lib, newName]
      in case os_MkdirAll env (path_Dir newPath) os of
           (Some err, os1) \<Rightarrow> (Some err, os1)
         | (None, os1) \<Rightarrow>
             (case (if move then moveFile env (OriginalFilename book) newPath os1
                    else copyFile env (OriginalFilename book) newPath os1) of
                (Some err, os2) \<Rightarrow> (Some err, os2)
              | (None, os2) \<Rightarrow> (None, os2)))"

text \<open>
  \<^verbatim>\<open>GetUniqueName\<close>: the loop runs while \<^verbatim>\<open>os.Stat\<close> of the current name returns no
  error. Nothing bounds it in the source, so the model is a partial function and
  \<open>None\<close> stands for a loop that never ends. \<open>i\<close> is the counter, \<open>newName\<close> the name
  that is probed next.
\<close>

partial_function (option) GetUniqueName_loop ::
  "env \<Rightarrow> os_state \<Rightarrow> string \<Rightarrow> string \<Rightarrow> int \<Rightarrow> string \<Rightarrow> string option" where
  "GetUniqueName_loop env os f ext i newName =
     (if os_Stat env os newName = None
      then GetUniqueName_loop env os f ext (i + 1)
             (strings_TrimSuffix f ext @ '' ('' @ strconv_Itoa i @ '')'' @ ext)
      else Some newName)"

definition GetUniqueName :: "env \<Rightarrow> os_state \<Rightarrow> string \<Rightarrow> string option" where
  "GetUniqueName env os f = GetUniqueName_loop env os f (path_Ext f) 1 f"

subsection \<open>Conversion\<close>

text \<open>\<^verbatim>\<open>ConvertToEpub\<close> returns an error only; \<open>filename'\<close> is its local \<^verbatim>\<open>filename\<close>.\<close>

definition ConvertToEpub :: "env \<Rightarrow> Library \<Rightarrow> Book \<Rightarrow> os_state \<Rightarrow> error option \<times> os_state" where
  "ConvertToEpub env lib book os =
     (let filename' = path_Join [booksRoot lib, CurrentFilename book];
          cacheDir = path_Join [path_Dir (filename lib), ''cache''];
          newFile = path_Join [cacheDir, Hash book @ ''.epub'']
      in case cmd_Run env ''ebook-convert'' [filename', newFile] os of
           (Some err, os1) \<Rightarrow> (Some err, os1)
         | (None, os1) \<Rightarrow> (None, os1))"

subsection \<open>The catalog database\<close>

text \<open>
  The two tables of \<^verbatim>\<open>initialSchema\<close>. A column that the schema lets be NULL holds an
  option. The rows of a table are listed in the order of their rowid, which is the order
  in which a scan of the table returns them. A rowid is a signed 64-bit integer, in the
  engine and in Go (\<^verbatim>\<open>int64\<close>); ids are handed out from 1 upwards, one by one, and
  the model does not bound them.
\<close>

record books_row =
  col_id :: int
  col_created_on :: time
  col_updated_on :: time
  col_author :: string
  col_series :: "string option"
  col_title :: string
  col_extension :: string
  col_tags :: "string option"
  col_original_filename :: string
  col_filename :: string
  col_file_size :: int
  col_file_mtime :: time
  col_hash :: string
  col_regexp_name :: string
  col_template_override :: "string option"
  col_source :: "string option"

record database =
  books :: "books_row list"
  books_fts :: "fts_row list"

text \<open>
  A query hands its rows to the caller through a cursor: the rows that
  \<^verbatim>\<open>rows.Next\<close> delivers, and what \<^verbatim>\<open>rows.Err\<close> says once it has stopped.
\<close>

definition db_cursor :: "env \<Rightarrow> db_call \<Rightarrow> 'a list \<Rightarrow> 'a list \<times> error option" where
  "db_cursor env c xs =
     (case rows_fault env c of
        None \<Rightarrow> (xs, None)
      | Some k \<Rightarrow> (take k xs, Some (RowsError c)))"

text \<open>
  A transaction works on its own copy of the tables: \<^verbatim>\<open>Commit\<close> makes the copy the
  database, \<^verbatim>\<open>Rollback\<close> leaves the database as it was. Queries sent through the
  library handle itself read the database, not the copy.
\<close>

definition db_Begin :: "env \<Rightarrow> database \<Rightarrow> error + database" where
  "db_Begin env db = (if db_fault env Db_Begin then Inl (DbError Db_Begin) else Inr db)"

definition tx_Rollback :: "database \<Rightarrow> database \<Rightarrow> database" where
  "tx_Rollback db tx = db"

definition tx_Commit :: "env \<Rightarrow> database \<Rightarrow> database \<Rightarrow> error option \<times> database" where
  "tx_Commit env db tx =
     (if db_fault env Db_Commit then (Some (DbError Db_Commit), db) else (None, tx))"

text \<open>\<^verbatim>\<open>select id from books where hash=?\<close>\<close>

definition Query_hash :: "env \<Rightarrow> database \<Rightarrow> string \<Rightarrow> error + (int list \<times> error option)" where
  "Query_hash env db h =
     (if db_fault env Db_Query_hash then Inl (DbError Db_Query_hash)
      else Inr (db_cursor env Db_Query_hash
                  (map col_id (filter (\<lambda>r. col_hash r = h) (books db)))))"

text \<open>
  An insert without a rowid gets one more than the largest rowid in use, and 1 in an
  empty table. The insert into \<^verbatim>\<open>books\<close> is refused when the hash is there already
  (\<^verbatim>\<open>hash text not null unique\<close>), the insert into \<^verbatim>\<open>books_fts\<close> when the docid is.
\<close>

fun max_rowid :: "books_row list \<Rightarrow> int option" where
  "max_rowid [] = None"
| "max_rowid (r # rs) =
     (case max_rowid rs of None \<Rightarrow> Some (col_id r) | Some m \<Rightarrow> Some (max (col_id r) m))"

definition next_rowid :: "books_row list \<Rightarrow> int" where
  "next_rowid rs = (case max_rowid rs of None \<Rightarrow> 1 | Some m \<Rightarrow> m + 1)"

definition Exec_insert_books ::
  "env \<Rightarrow> database \<Rightarrow> Book \<Rightarrow> string \<Rightarrow> error + (database \<times> int)" where
  "Exec_insert_books env tx book tags =
     (if db_fault env Db_Exec_books \<or> Hash book \<in> col_hash ` set (books tx)
      then Inl (DbError Db_Exec_books)
      else
        let rowid = next_rowid (books tx);
            row = \<lparr>col_id = rowid, col_created_on = clock env, col_updated_on = clock env,
                   col_author = Author book, col_series = Some (Series book),
                   col_title = Title book, col_extension = Extension book,
                   col_tags = Some tags, col_original_filename = OriginalFilename book,
                   col_filename = CurrentFilename book, col_file_size = FileSize book,
                   col_file_mtime = FileMtime book, col_hash = Hash book,
                   col_regexp_name = RegexpName book, col_template_override = None,
                   col_source = Some (Source book)\<rparr>
        in Inr (tx\<lparr>books := books tx @ [row]\<rparr>, rowid))"

definition Result_LastInsertId :: "env \<Rightarrow> int \<Rightarrow> error + int" where
  "Result_LastInsertId env res =
     (if db_fault env Db_LastInsertId then Inl (DbError Db_LastInsertId) else Inr res)"

definition Exec_insert_books_fts ::
  "env \<Rightarrow> database \<Rightarrow> int \<Rightarrow> Book \<Rightarrow> string \<Rightarrow> error + database" where
  "Exec_insert_books_fts env tx id' book tags =
     (if db_fault env Db_Exec_books_fts \<or> id' \<in> fts_docid ` set (books_fts tx)
      then Inl (DbError Db_Exec_books_fts)
      else
        let row = \<lparr>fts_docid = id', fts_author = Author book, fts_series = Series book,
                   fts_title = Title book, fts_extension = Extension book, fts_tags = tags,
                   fts_filename = CurrentFilename book, fts_source = Source book\<rparr>
        in Inr (tx\<lparr>books_fts := books_fts tx @ [row]\<rparr>))"

text \<open>\<^verbatim>\<open>select docid from books_fts where books_fts match ?\<close>\<close>

definition Query_match :: "env \<Rightarrow> database \<Rightarrow> string \<Rightarrow> error + (int list \<times> error option)" where
  "Query_match env db terms =
     (if db_fault env Db_Query_match then Inl (DbError Db_Query_match)
      else Inr (db_cursor env Db_Query_match (fts_match env terms (books_fts db))))"

text \<open>
  \<^verbatim>\<open>select id, hash, author, series, tags, title, extension, filename from books where
  id in (?,...,?)\<close>: the rows of the table whose id is one of the arguments. The statement
  has no \<^verbatim>\<open>order by\<close>, and the rows come in the order of the table.
\<close>

definition Query_ids ::
  "env \<Rightarrow> database \<Rightarrow> int list \<Rightarrow> error + (books_row list \<times> error option)" where
  "Query_ids env db iids =
     (if db_fault env Db_Query_ids then Inl (DbError Db_Query_ids)
      else Inr (db_cursor env Db_Query_ids (filter (\<lambda>r. col_id r \<in> set iids) (books db))))"

text \<open>
  \<^verbatim>\<open>rows.Scan\<close> into the fields of a fresh \<^verbatim>\<open>Book{}\<close> and the local \<^verbatim>\<open>tags\<close>: a NULL
  cannot be stored in a Go string.
\<close>

definition rows_Scan :: "books_row \<Rightarrow> error + (Book \<times> string)" where
  "rows_Scan r =
     (case col_series r of
        None \<Rightarrow> Inl (ScanError ''series'')
      | Some series \<Rightarrow>
          (case col_tags r of
             None \<Rightarrow> Inl (ScanError ''tags'')
           | Some tags \<Rightarrow>
               Inr (Book_zero\<lparr>Id' := col_id r, Hash := col_hash r, Author := col_author r,
                      Series := series, Title := col_title r, Extension := col_extension r,
                      CurrentFilename := col_filename r\<rparr>, tags)))"

subsection \<open>Import\<close>

text \<open>
  \<^verbatim>\<open>ImportBook\<close> up to the placement of the file (the source down to the insert into
  \<^verbatim>\<open>books_fts\<close>): \<open>Inl\<close> is an early return, with the result and the database after
  the rollback; \<open>Inr\<close> is the open transaction and the id of the new row. When the
  cursor of the duplicate check has broken, the error that is wrapped is the \<^verbatim>\<open>err\<close>
  of the query, which is nil there.
\<close>

definition ImportBook_records ::
  "env \<Rightarrow> Book \<Rightarrow> database \<Rightarrow> (error option \<times> database) + (database \<times> int)" where
  "ImportBook_records env book db =
     (case db_Begin env db of
        Inl err \<Rightarrow> Inl (Some err, db)
      | Inr tx \<Rightarrow>
          (case Query_hash env db (Hash book) of
             Inl err \<Rightarrow> Inl (Some err, tx_Rollback db tx)
           | Inr (rows, rows_Err) \<Rightarrow>
               (case rows of
                  id' # _ \<Rightarrow>
                    Inl (Some (Errorf (''A duplicate book already exists with id ''
                                        @ strconv_Itoa id')),
                         tx_Rollback db tx)
                | [] \<Rightarrow>
                    if rows_Err \<noteq> None
                    then Inl (errors_Wrap None
                                (''Searching for duplicate book by hash '' @ Hash book),
                              tx_Rollback db tx)
                    else
                      let tags = strings_Join (Tags book) ''/''
                      in case Exec_insert_books env tx book tags of
                           Inl err \<Rightarrow>
                             Inl (errors_Wrap (Some err) ''Inserting book into the db'',
                                  tx_Rollback db tx)
                         | Inr (tx1, res) \<Rightarrow>
                             (case Result_LastInsertId env res of
                                Inl err \<Rightarrow>
                                  Inl (errors_Wrap (Some err) ''Fetching new book ID'',
                                       tx_Rollback db tx1)
                              | Inr id' \<Rightarrow>
                                  (case Exec_insert_books_fts env tx1 id' book tags of
                                     Inl err \<Rightarrow>
                                       Inl (errors_Wrap (Some err) ''Indexing book for search'',
                                            tx_Rollback db tx1)
                                   | Inr tx2 \<Rightarrow> Inr (tx2, id'))))))"

text \<open>
  The whole of \<^verbatim>\<open>ImportBook\<close>: the records, then the file, then the commit, whose
  result the source drops.
\<close>

definition ImportBook ::
  "env \<Rightarrow> Library \<Rightarrow> Book \<Rightarrow> bool \<Rightarrow> database \<Rightarrow> os_state
     \<Rightarrow> error option \<times> database \<times> os_state" where
  "ImportBook env lib book move db os =
     (case ImportBook_records env book db of
        Inl (e, db1) \<Rightarrow> (e, db1, os)
      | Inr (tx, id') \<Rightarrow>
          (case moveOrCopyFile env lib (book\<lparr>Id' := id'\<rparr>) move os of
             (Some err, os1) \<Rightarrow>
               (errors_Wrap (Some err) ''Moving or copying book'', tx_Rollback db tx, os1)
           | (None, os1) \<Rightarrow> (None, snd (tx_Commit env db tx), os1)))"

subsection \<open>Lookup and search\<close>

text \<open>The loop over the rows of \<^verbatim>\<open>GetBooksById\<close>; it stops at the first failed scan.\<close>

fun scan_rows :: "books_row list \<Rightarrow> Book list \<Rightarrow> Book list \<times> error option" where
  "scan_rows [] results = (results, None)"
| "scan_rows (r # rs) results =
     (case rows_Scan r of
        Inl err \<Rightarrow> (results, errors_Wrap (Some err) ''scanning rows'')
      | Inr (book, tags) \<Rightarrow>
          scan_rows rs (results @ [book\<lparr>Tags := strings_Split tags ''/''\<rparr>]))"

text \<open>
  \<^verbatim>\<open>GetBooksById\<close>. As in the duplicate check, a broken cursor wraps the \<^verbatim>\<open>err\<close> of
  the query, which is nil there.
\<close>

definition GetBooksById :: "env \<Rightarrow> database \<Rightarrow> int list \<Rightarrow> Book list \<times> error option" where
  "GetBooksById env db ids =
     (if length ids = 0 then ([], None)
      else
        case Query_ids env db ids of
          Inl err \<Rightarrow> ([], errors_Wrap (Some err) ''fetching books from database by ID'')
        | Inr (rows, rows_Err) \<Rightarrow>
            (case scan_rows rows [] of
               (results, Some err) \<Rightarrow> (results, Some err)
             | (results, None) \<Rightarrow>
                 if rows_Err \<noteq> None
                 then (results, errors_Wrap None ''querying books by ID'')
                 else (results, None)))"

definition Search :: "env \<Rightarrow> database \<Rightarrow> string \<Rightarrow> Book list \<times> error option" where
  "Search env db terms =
     (case Query_match env db terms of
        Inl err \<Rightarrow> ([], errors_Wrap (Some err) ''Querying db for search terms'')
      | Inr (ids, rows_Err) \<Rightarrow>
          (case rows_Err of
             Some err \<Rightarrow> ([], errors_Wrap (Some err) ''Retreiving search results from db'')
           | None \<Rightarrow>
               (case GetBooksById env db ids of
                  (results, Some err) \<Rightarrow> (results, Some err)
                | (results, None) \<Rightarrow> (results, None))))"

subsection \<open>Reading a catalog\<close>

text \<open>
  The record of a row, field by field, as a lookup is to present it: id, hash, author,
  series, title, extension and current file name are the columns of the row, the tags
  are the tags column cut at its slashes, and the fields that the query does not select
  are zero. A row can be scanned when neither of its two nullable columns that are read
  is NULL. \<^verbatim>\<open>ImportBook\<close> is the only writer of the table; the catalogs it leaves behind
  have their rows in ascending id order, no hash twice and no NULL in \<^verbatim>\<open>series\<close> or
  \<^verbatim>\<open>tags\<close>.
\<close>

definition row_Book :: "books_row \<Rightarrow> Book" where
  "row_Book r =
     \<lparr>Id' = col_id r,
      Author = col_author r,
      Series = (case col_series r of None \<Rightarrow> [] | Some series \<Rightarrow> series),
      Title = col_title r,
      Extension = col_extension r,
      Tags = strings_Split (case col_tags r of None \<Rightarrow> [] | Some tags \<Rightarrow> tags) ''/'',
      OriginalFilename = [],
      CurrentFilename = col_filename r,
      FileSize = 0,
      FileMtime = 0,
      Hash = col_hash r,
      RegexpName = [],
      Source = []\<rparr>"

definition scannable :: "books_row \<Rightarrow> bool" where
  "scannable r = (col_series r \<noteq> None \<and> col_tags r \<noteq> None)"

definition wf_database :: "database \<Rightarrow> bool" where
  "wf_database db =
     (sorted_wrt (<) (map col_id (books db)) \<and>
      distinct (map col_hash (books db)) \<and>
      (\<forall>r\<in>set (books db). scannable r))"

subsection \<open>Numbered names\<close>

text \<open>The name that the loop of \<^verbatim>\<open>GetUniqueName\<close> builds from \<open>f\<close> and its counter.\<close>

definition numbered :: "string \<Rightarrow> int \<Rightarrow> string" where
  "numbered f i =
     strings_TrimSuffix f (path_Ext f) @ '' ('' @ strconv_Itoa i @ '')'' @ path_Ext f"

subsection \<open>Cleaned paths and the cache file\<close>

text \<open>
  What \<^verbatim>\<open>path.Clean\<close> writes from its stack; the names that stay on the stack as they
  are; the stacks it can end with (above a \<^verbatim>\<open>..\<close> there is nothing but \<^verbatim>\<open>..\<close>, and
  none at all under the root); and the destination that \<^verbatim>\<open>ConvertToEpub\<close> computes in
  \<^verbatim>\<open>newFile\<close>.
\<close>

definition path_render :: "bool \<Rightarrow> string list \<Rightarrow> string" where
  "path_render rooted st =
     (if rooted then CHR ''/'' # strings_Join st ''/''
      else if st = [] then ''.''
      else strings_Join st ''/'')"

definition plain :: "string \<Rightarrow> bool" where
  "plain n = (n \<noteq> [] \<and> n \<noteq> ''.'' \<and> n \<noteq> ''..'' \<and> CHR ''/'' \<notin> set n)"

fun clean_stack :: "bool \<Rightarrow> string list \<Rightarrow> bool" where
  "clean_stack rooted [] = True"
| "clean_stack rooted (t # ts) =
     (if t = ''..'' then \<not> rooted \<and> (\<forall>x\<in>set ts. x = ''..'')
      else plain t \<and> clean_stack rooted ts)"

definition cache_file :: "Library \<Rightarrow> Book \<Rightarrow> string" where
  "cache_file lib book =
     path_Join [path_Join [path_Dir (filename lib), ''cache''], Hash book @ ''.epub'']"

subsection \<open>A small library\<close>

text \<open>
  The values used where a property is run on an example: an environment in which
  nothing goes wrong and every index row matches, a catalog of two books, books to import, a library handle and a disk.
\<close>

definition quiet :: env where
  "quiet =
     \<lparr>os_fault = (\<lambda>c. False), short_copy = 0, clock = 1700000000,
      db_fault = (\<lambda>c. False), rows_fault = (\<lambda>c. None),
      fts_match = (\<lambda>terms rows. map fts_docid rows),
      run_exit = (\<lambda>name args. Some 0)\<rparr>"

definition shelf_row :: "int \<Rightarrow> string \<Rightarrow> string \<Rightarrow> books_row" where
  "shelf_row n title h =
     \<lparr>col_id = n, col_created_on = 1600000000, col_updated_on = 1600000000,
      col_author = ''Anon'', col_series = Some [], col_title = title,
      col_extension = ''epub'', col_tags = Some ''scifi/classic'',
      col_original_filename = ''/in/'' @ title @ ''.epub'',
      col_filename = title @ ''.epub'', col_file_size = 4, col_file_mtime = 1500000000,
      col_hash = h, col_regexp_name = ''default'', col_template_override = None,
      col_source = Some []\<rparr>"

definition shelf_fts_row :: "int \<Rightarrow> string \<Rightarrow> fts_row" where
  "shelf_fts_row n title =
     \<lparr>fts_docid = n, fts_author = ''Anon'', fts_series = [], fts_title = title,
      fts_extension = ''epub'', fts_tags = ''scifi/classic'',
      fts_filename = title @ ''.epub'', fts_source = []\<rparr>"

definition shelf :: database where
  "shelf =
     \<lparr>books = [shelf_row 1 ''Dune'' ''H1'', shelf_row 2 ''Emma'' ''H2''],
      books_fts = [shelf_fts_row 1 ''Dune'', shelf_fts_row 2 ''Emma'']\<rparr>"

definition inbound :: "string \<Rightarrow> string \<Rightarrow> string list \<Rightarrow> Book" where
  "inbound title h tags =
     \<lparr>Id' = 0, Author = ''Anon'', Series = [], Title = title, Extension = ''epub'',
      Tags = tags, OriginalFilename = ''/in/'' @ title @ ''.epub'',
      CurrentFilename = title @ ''.epub'', FileSize = 4, FileMtime = 1500000000,
      Hash = h, RegexpName = ''default'', Source = []\<rparr>"

definition home :: Library where
  "home = \<lparr>filename = ''/var/lib/books.db'', booksRoot = ''/books''\<rparr>"

definition disk :: "(string \<times> inode) list \<Rightarrow> os_state" where
  "disk fs = \<lparr>files = map_of fs, dirs = {''/'', ''/in'', ''/books''}, trace = []\<rparr>"

definition ulysses_file :: "(string \<times> inode) list" where
  "ulysses_file = [(''/in/Ulysses.epub'', \<lparr>f_data = ''text'', f_mtime = 1500000000\<rparr>)]"

text \<open>
  Two environments in which the system refuses calls: one refuses every
  \<^verbatim>\<open>os.Chtimes\<close>, the other every rename (the destination is on another volume) and
  every removal.
\<close>

definition no_chtimes :: env where
  "no_chtimes = quiet\<lparr>os_fault := (\<lambda>c. case c of Sys_Chtimes p a m \<Rightarrow> True | _ \<Rightarrow> False)\<rparr>"

definition other_volume :: env where
  "other_volume =
     quiet\<lparr>os_fault := (\<lambda>c. case c of Sys_Rename s d \<Rightarrow> True | Sys_Remove p \<Rightarrow> True
                                | _ \<Rightarrow> False)\<rparr>"

text \<open>Disks on which \<^verbatim>\<open>foo.epub\<close> is taken, and its first numbered name too.\<close>

definition one_foo :: os_state where
  "one_foo = disk [(''foo.epub'', \<lparr>f_data = ''text'', f_mtime = 1500000000\<rparr>)]"

definition two_foos :: os_state where
  "two_foos =
     disk [(''foo.epub'', \<lparr>f_data = ''text'', f_mtime = 1500000000\<rparr>),
           (''foo (1).epub'', \<lparr>f_data = ''more'', f_mtime = 1500000001\<rparr>)]"

text \<open>Environments whose converter exits with code 1, or cannot be started.\<close>

definition failing_converter :: env where
  "failing_converter = quiet\<lparr>run_exit := (\<lambda>name args. Some 1)\<rparr>"

definition no_converter :: env where
  "no_converter = quiet\<lparr>run_exit := (\<lambda>name args. None)\<rparr>"

section \<open>Properties\<close>

text \<open>The definitions that running an example unfolds.\<close>

lemmas example_defs =
  quiet_def shelf_def shelf_row_def shelf_fts_row_def inbound_def home_def disk_def

lemmas db_defs =
  ImportBook_records_def db_Begin_def Query_hash_def db_cursor_def tx_Rollback_def
  tx_Commit_def Exec_insert_books_def Result_LastInsertId_def Exec_insert_books_fts_def
  next_rowid_def

lemmas os_defs =
  moveOrCopyFile_def copyFile_def moveFile_def os_MkdirAll_def os_Rename_def os_Open_def
  file_Stat_def os_Create_def io_Copy_def file_Close_def os_Chtimes_def os_Remove_def
  issue_def

lemmas path_defs =
  path_Join_def path_Dir_def path_Split_def path_Clean_def strings_HasPrefix_def

subsection \<open>Tags: joined on import, split on lookup\<close>

lemma genSplit_slash_Cons:
  "genSplit ''/'' cur (c # cs) =
     (if c = CHR ''/'' then cur # genSplit ''/'' [] cs else genSplit ''/'' (cur @ [c]) cs)"
  by (simp add: strings_HasPrefix_def)

lemma genSplit_no_slash:
  "CHR ''/'' \<notin> set t \<Longrightarrow> genSplit ''/'' cur t = [cur @ t]"
  by (induction t arbitrary: cur) (auto simp: strings_HasPrefix_def)

lemma genSplit_piece:
  "CHR ''/'' \<notin> set t \<Longrightarrow>
     genSplit ''/'' cur (t @ CHR ''/'' # rest) = (cur @ t) # genSplit ''/'' [] rest"
  by (induction t arbitrary: cur) (auto simp: strings_HasPrefix_def)

lemma genSplit_Join:
  "T \<noteq> [] \<Longrightarrow> \<forall>t\<in>set T. CHR ''/'' \<notin> set t \<Longrightarrow> genSplit ''/'' [] (strings_Join T ''/'') = T"
proof (induction T)
  case Nil
  then show ?case by simp
next
  case (Cons x xs)
  show ?case
  proof (cases xs)
    case Nil
    with Cons.prems show ?thesis by (simp add: genSplit_no_slash)
  next
    case (Cons y ys)
    with Cons.prems Cons.IH have "genSplit ''/'' [] (strings_Join xs ''/'') = xs" by simp
    moreover have "CHR ''/'' \<notin> set x" using Cons.prems by simp
    ultimately show ?thesis using Cons genSplit_piece [of x "[]"] by simp
  qed
qed

lemma genSplit_not_Nil: "genSplit sep cur s \<noteq> []"
  by (induction sep cur s rule: genSplit.induct) auto

text \<open>
  Claim C3, as the code has it. \<^verbatim>\<open>ImportBook\<close> stores
  \<^verbatim>\<open>strings.Join(book.Tags, "/")\<close> and \<^verbatim>\<open>GetBooksById\<close> reads the column back with
  \<^verbatim>\<open>strings.Split(tags, "/")\<close>. For a list of tags none of which contains a slash, the
  split of the joined tags is the list itself when the list is not empty; for the empty
  list it is the list of one empty tag.
\<close>

theorem tags_round_trip:
  assumes "\<forall>t\<in>set T. CHR ''/'' \<notin> set t"
  shows "strings_Split (strings_Join T ''/'') ''/'' = (if T = [] then [''''] else T)"
  using assms by (simp add: strings_Split_def genSplit_Join)

theorem tags_round_trip_witness:
  "CHR ''/'' \<notin> set ''scifi'' \<and> CHR ''/'' \<notin> set ''classic'' \<and>
   strings_Split (strings_Join [''scifi'', ''classic''] ''/'') ''/'' = [''scifi'', ''classic'']"
  using tags_round_trip [of "[''scifi'', ''classic'']"] by simp

text \<open>
  Claim C3 as stated includes the empty list, and there the round trip fails: nothing
  joined is the empty string, and the empty string split is one empty tag.
\<close>

theorem empty_tags_counterexample:
  "strings_Split (strings_Join [] ''/'') ''/'' \<noteq> []"
  by (simp add: strings_Split_def)

subsection \<open>Rows and the books made of them\<close>

lemma scan_rows_scannable:
  "\<forall>r\<in>set rs. scannable r \<Longrightarrow> scan_rows rs results = (results @ map row_Book rs, None)"
  by (induction rs arbitrary: results)
     (auto simp: scannable_def row_Book_def rows_Scan_def Book_zero_def)

lemma strings_Split_not_Nil: "strings_Split s ''/'' \<noteq> []"
  by (simp add: strings_Split_def genSplit_not_Nil)

lemma scan_rows_Tags:
  "\<forall>b\<in>set results. Tags b \<noteq> [] \<Longrightarrow> \<forall>b\<in>set (fst (scan_rows rs results)). Tags b \<noteq> []"
proof (induction rs arbitrary: results)
  case Nil
  then show ?case by simp
next
  case (Cons r rs)
  show ?case
  proof (cases "rows_Scan r")
    case (Inl err)
    with Cons.prems show ?thesis by simp
  next
    case (Inr bt)
    obtain book tags where bt: "bt = (book, tags)" by (cases bt)
    have "\<forall>b\<in>set (results @ [book\<lparr>Tags := strings_Split tags ''/''\<rparr>]). Tags b \<noteq> []"
      using Cons.prems by (simp add: strings_Split_not_Nil)
    from Cons.IH [OF this] show ?thesis using Inr bt by simp
  qed
qed

lemma GetBooksById_results:
  assumes "\<not> db_fault env Db_Query_ids" and "rows_fault env Db_Query_ids = None"
    and "\<forall>r\<in>set (books db). scannable r"
  shows "GetBooksById env db ids =
           (map row_Book (filter (\<lambda>r. col_id r \<in> set ids) (books db)), None)"
proof (cases "ids = []")
  case True
  then show ?thesis by (simp add: GetBooksById_def)
next
  case False
  have "\<forall>r\<in>set (filter (\<lambda>r. col_id r \<in> set ids) (books db)). scannable r"
    using assms(3) by simp
  from scan_rows_scannable [OF this, of "[]"] show ?thesis
    using False assms(1,2) by (simp add: GetBooksById_def Query_ids_def db_cursor_def)
qed

lemma Id_row_Book: "Id' (row_Book r) = col_id r"
  by (simp add: row_Book_def)

lemma max_rowid_bound: "r \<in> set rs \<Longrightarrow> \<exists>m. max_rowid rs = Some m \<and> col_id r \<le> m"
  by (induction rs) (auto split: option.splits)

lemma col_id_less_next_rowid: "r \<in> set rs \<Longrightarrow> col_id r < next_rowid rs"
  using max_rowid_bound [of r rs] by (auto simp: next_rowid_def)

lemma ImportBook_records_Inl:
  "ImportBook_records env book db = Inl (e, db1) \<Longrightarrow> db1 = db"
  by (auto simp: ImportBook_records_def db_Begin_def tx_Rollback_def Let_def
           split: sum.splits list.splits if_splits prod.splits)

lemma ImportBook_records_Inr:
  assumes "ImportBook_records env book db = Inr (tx, id')"
  shows "\<exists>row frow.
           books tx = books db @ [row] \<and> books_fts tx = books_fts db @ [frow] \<and>
           id' = next_rowid (books db) \<and> col_id row = id' \<and> fts_docid frow = id' \<and>
           col_hash row = Hash book \<and>
           col_series row = Some (Series book) \<and>
           col_tags row = Some (strings_Join (Tags book) ''/'') \<and>
           fts_tags frow = strings_Join (Tags book) ''/'' \<and>
           Hash book \<notin> col_hash ` set (books db) \<and>
           id' \<notin> fts_docid ` set (books_fts db)"
  using assms
  by (auto simp: ImportBook_records_def db_Begin_def Exec_insert_books_def
                 Result_LastInsertId_def Exec_insert_books_fts_def Let_def
           split: sum.splits list.splits if_splits prod.splits)

lemma filter_hash_unique:
  assumes "distinct (map col_hash rs)" and "r \<in> set rs"
  shows "filter (\<lambda>x. col_hash x = col_hash r) rs = [r]"
  using assms
proof (induction rs)
  case Nil
  then show ?case by simp
next
  case (Cons a rs)
  show ?case
  proof (cases "a = r")
    case True
    have "col_hash r \<notin> col_hash ` set rs"
      using Cons.prems(1) True by simp
    then have "\<forall>x\<in>set rs. col_hash x \<noteq> col_hash r"
      by (metis imageI)
    then have "filter (\<lambda>x. col_hash x = col_hash r) rs = []"
      by (simp add: filter_empty_conv)
    with True show ?thesis by simp
  next
    case False
    with Cons.prems have "r \<in> set rs" by simp
    moreover from this Cons.prems(1) have "col_hash a \<noteq> col_hash r" by auto
    ultimately show ?thesis using Cons by simp
  qed
qed

lemma scan_rows_origin:
  "\<forall>b\<in>set (fst (scan_rows rs results)).
     b \<in> set results \<or> (\<exists>r\<in>set rs. Hash b = col_hash r \<and> Id' b = col_id r)"
proof (induction rs arbitrary: results)
  case Nil
  then show ?case by simp
next
  case (Cons r rs)
  show ?case
  proof (cases "rows_Scan r")
    case (Inl err)
    then show ?thesis by simp
  next
    case (Inr bt)
    obtain book tags where bt: "bt = (book, tags)" by (cases bt)
    have from_r: "Hash book = col_hash r \<and> Id' book = col_id r"
      using Inr bt by (auto simp: rows_Scan_def Book_zero_def split: option.splits)
    show ?thesis
      using Cons.IH [of "results @ [book\<lparr>Tags := strings_Split tags ''/''\<rparr>]"] Inr bt from_r
      by auto
  qed
qed

lemma GetBooksById_scan:
  "\<exists>rows. set rows \<subseteq> set (books db) \<and>
          fst (GetBooksById env db ids) = fst (scan_rows rows [])"
proof (cases "ids = [] \<or> db_fault env Db_Query_ids")
  case True
  then have "fst (GetBooksById env db ids) = fst (scan_rows [] [])"
    by (auto simp: GetBooksById_def Query_ids_def)
  then show ?thesis by (metis empty_subsetI list.set(1))
next
  case False
  define rows where "rows = fst (db_cursor env Db_Query_ids
                                   (filter (\<lambda>r. col_id r \<in> set ids) (books db)))"
  have "fst (GetBooksById env db ids) = fst (scan_rows rows [])"
    using False
    by (auto simp: GetBooksById_def Query_ids_def rows_def split: prod.splits option.splits)
  moreover have "set rows \<subseteq> set (books db)"
    by (auto simp: rows_def db_cursor_def split: option.splits dest: in_set_takeD)
  ultimately show ?thesis by blast
qed

lemma Search_results:
  "fst (Search env db terms) = [] \<or>
   (\<exists>ids. Search env db terms = GetBooksById env db ids)"
proof (cases "Query_match env db terms")
  case (Inl err)
  then show ?thesis by (simp add: Search_def)
next
  case (Inr p)
  obtain ids rows_Err where p: "p = (ids, rows_Err)" by (cases p)
  show ?thesis
  proof (cases rows_Err)
    case None
    with Inr p have "Search env db terms = GetBooksById env db ids"
      by (simp add: Search_def split: prod.splits option.splits)
    then show ?thesis by blast
  next
    case (Some err)
    with Inr p show ?thesis by (simp add: Search_def)
  qed
qed

lemma Search_scan:
  "\<exists>rows. set rows \<subseteq> set (books db) \<and>
          fst (Search env db terms) = fst (scan_rows rows [])"
proof (cases "fst (Search env db terms) = []")
  case True
  then have "fst (Search env db terms) = fst (scan_rows [] [])" by simp
  then show ?thesis by (metis empty_subsetI list.set(1))
next
  case False
  with Search_results obtain ids where "Search env db terms = GetBooksById env db ids"
    by blast
  then show ?thesis using GetBooksById_scan by metis
qed

lemma GetBooksById_origin:
  assumes "b \<in> set (fst (GetBooksById env db ids))"
  shows "\<exists>r\<in>set (books db). Hash b = col_hash r \<and> Id' b = col_id r"
proof -
  from GetBooksById_scan obtain rows
    where "set rows \<subseteq> set (books db)"
      and "fst (GetBooksById env db ids) = fst (scan_rows rows [])" by blast
  with assms scan_rows_origin [of rows "[]"] show ?thesis by auto
qed

lemma Search_origin:
  assumes "b \<in> set (fst (Search env db terms))"
  shows "\<exists>r\<in>set (books db). Hash b = col_hash r \<and> Id' b = col_id r"
proof -
  from Search_scan obtain rows
    where "set rows \<subseteq> set (books db)"
      and "fst (Search env db terms) = fst (scan_rows rows [])" by blast
  with assms scan_rows_origin [of rows "[]"] show ?thesis by auto
qed

lemma ImportBook_changed:
  assumes "ImportBook env lib book move db os = (e, db2, os2)" and "db2 \<noteq> db"
  shows "\<exists>id'. ImportBook_records env book db = Inr (db2, id')"
proof (cases "ImportBook_records env book db")
  case (Inl a)
  obtain e1 db1 where a: "a = (e1, db1)" by (cases a)
  with Inl have "db1 = db" using ImportBook_records_Inl by simp
  with Inl a assms show ?thesis by (simp add: ImportBook_def)
next
  case (Inr b)
  obtain tx id' where b: "b = (tx, id')" by (cases b)
  with Inr assms have "db2 = tx"
    by (auto simp: ImportBook_def tx_Rollback_def tx_Commit_def
             split: prod.splits option.splits if_splits)
  with Inr b show ?thesis by simp
qed


subsection \<open>The trace of calls\<close>

text \<open>
  Each call adds itself to the trace, and a placement starts with \<^verbatim>\<open>os.MkdirAll\<close>: a
  run of \<^verbatim>\<open>moveOrCopyFile\<close> never leaves the trace as it was.
\<close>

lemma trace_calls [simp]:
  "trace (snd (os_MkdirAll env p os)) = trace os @ [Sys_MkdirAll p]"
  "trace (snd (os_Rename env src dst os)) = trace os @ [Sys_Rename src dst]"
  "trace (snd (os_Open env src os)) = trace os @ [Sys_Open src]"
  "trace (snd (file_Stat env src os)) = trace os @ [Sys_FileStat src]"
  "trace (snd (os_Create env dst os)) = trace os @ [Sys_Create dst]"
  "trace (snd (io_Copy env src dst os)) = trace os @ [Sys_Copy src dst]"
  "trace (snd (file_Close env c os)) = trace os @ [c]"
  "trace (snd (os_Chtimes env p a m os)) = trace os @ [Sys_Chtimes p a m]"
  "trace (snd (os_Remove env p os)) = trace os @ [Sys_Remove p]"
  by (simp_all add: os_MkdirAll_def os_Rename_def os_Open_def file_Stat_def os_Create_def
        io_Copy_def file_Close_def os_Chtimes_def os_Remove_def issue_def Let_def
      split: option.splits)

lemma copyFile_trace: "\<exists>cs. trace (snd (copyFile env src dst os)) = trace os @ cs"
proof -
  show ?thesis
    unfolding copyFile_def
    by (auto split: prod.splits option.splits sum.splits simp: Let_def)
       (metis trace_calls snd_conv append.assoc)+
qed


lemma moveFile_trace: "\<exists>cs. trace (snd (moveFile env src dst os)) = trace os @ cs"
proof -
  obtain r os1 where a: "os_Rename env src dst os = (r, os1)" by (cases "os_Rename env src dst os")
  then have t1: "trace os1 = trace os @ [Sys_Rename src dst]"
    using trace_calls(2) [of env src dst os] by simp
  obtain c os2 where b: "copyFile env src dst os1 = (c, os2)" by (cases "copyFile env src dst os1")
  then obtain cs where t2: "trace os2 = trace os1 @ cs"
    using copyFile_trace [of env src dst os1] by auto
  obtain d os3 where c: "os_Remove env src os2 = (d, os3)" by (cases "os_Remove env src os2")
  then have t3: "trace os3 = trace os2 @ [Sys_Remove src]"
    using trace_calls(9) [of env src os2] by simp
  show ?thesis
    using a b c t1 t2 t3 by (auto simp: moveFile_def split: option.splits)
qed

lemma moveOrCopyFile_issues:
  "\<exists>cs. trace (snd (moveOrCopyFile env lib book move os)) =
          trace os @ Sys_MkdirAll (path_Dir (path_Join [booksRoot lib, CurrentFilename book])) # cs"
proof -
  define p where "p = path_Join [booksRoot lib, CurrentFilename book]"
  obtain r os1 where a: "os_MkdirAll env (path_Dir p) os = (r, os1)"
    by (cases "os_MkdirAll env (path_Dir p) os")
  then have t1: "trace os1 = trace os @ [Sys_MkdirAll (path_Dir p)]"
    using trace_calls(1) [of env "path_Dir p" os] by simp
  obtain cs where "trace (snd (moveFile env (OriginalFilename book) p os1)) = trace os1 @ cs"
    using moveFile_trace by blast
  moreover obtain ds
    where "trace (snd (copyFile env (OriginalFilename book) p os1)) = trace os1 @ ds"
    using copyFile_trace by blast
  ultimately show ?thesis
    using a t1
    by (auto simp: moveOrCopyFile_def Let_def p_def split: option.splits prod.splits)
qed

subsection \<open>Import\<close>

text \<open>
  Claim C1. In a catalog without two rows of one hash (the column is declared unique)
  that holds a row \<open>r\<close> with the hash of the book,
  \<^verbatim>\<open>ImportBook\<close> leaves the database and the file system exactly as they were: no row is
  added to \<^verbatim>\<open>books\<close> or \<^verbatim>\<open>books_fts\<close>, and the trace of system calls does not grow,
  so \<^verbatim>\<open>moveOrCopyFile\<close> did not run: no directory was made and nothing was moved or
  copied. This holds whatever the environment does. When the transaction can be opened and the duplicate query delivers
  its row, the result is the duplicate error, whose message ends with the id of \<open>r\<close>.
\<close>

theorem duplicate_import_rejected:
  assumes "distinct (map col_hash (books db))"
    and "r \<in> set (books db)" and "col_hash r = Hash book"
  shows "snd (ImportBook env lib book move db os) = (db, os) \<and>
         (\<not> db_fault env Db_Begin \<and> \<not> db_fault env Db_Query_hash \<and>
          rows_fault env Db_Query_hash \<noteq> Some 0 \<longrightarrow>
            fst (ImportBook env lib book move db os) =
              Some (Errorf (''A duplicate book already exists with id ''
                             @ strconv_Itoa (col_id r))))"
proof -
  have one: "filter (\<lambda>x. col_hash x = Hash book) (books db) = [r]"
    using filter_hash_unique [of "books db" r] assms by simp
  have early: "\<exists>e. ImportBook_records env book db = Inl (e, db)"
  proof (cases "ImportBook_records env book db")
    case (Inl a)
    obtain e db1 where "a = (e, db1)" by (cases a)
    with Inl show ?thesis using ImportBook_records_Inl [of env book db e db1] by simp
  next
    case (Inr b)
    then have "Hash book \<notin> col_hash ` set (books db)"
      using ImportBook_records_Inr [of env book db "fst b" "snd b"] by auto
    with assms(2,3) show ?thesis by force
  qed
  then have unchanged: "snd (ImportBook env lib book move db os) = (db, os)"
    by (auto simp: ImportBook_def)
  have dup: "fst (ImportBook env lib book move db os) =
               Some (Errorf (''A duplicate book already exists with id ''
                              @ strconv_Itoa (col_id r)))"
    if "\<not> db_fault env Db_Begin" "\<not> db_fault env Db_Query_hash"
       "rows_fault env Db_Query_hash \<noteq> Some 0"
  proof -
    have "ImportBook_records env book db =
            Inl (Some (Errorf (''A duplicate book already exists with id ''
                                @ strconv_Itoa (col_id r))), db)"
      using that one
      by (cases "rows_fault env Db_Query_hash")
         (auto simp: ImportBook_records_def db_Begin_def Query_hash_def db_cursor_def
                     tx_Rollback_def take_Cons' split: list.splits)
    then show ?thesis by (simp add: ImportBook_def)
  qed
  from unchanged dup show ?thesis by blast
qed

theorem duplicate_import_rejected_witness:
  "distinct (map col_hash (books shelf)) \<and>
   shelf_row 1 ''Dune'' ''H1'' \<in> set (books shelf) \<and>
   col_hash (shelf_row 1 ''Dune'' ''H1'') = Hash (inbound ''Dune (dup)'' ''H1'' []) \<and>
   ImportBook quiet home (inbound ''Dune (dup)'' ''H1'' []) True shelf (disk []) =
     (Some (Errorf ''A duplicate book already exists with id 1''), shelf, disk [])"
proof -
  have h1: "distinct (map col_hash (books shelf))" by (simp add: shelf_def shelf_row_def)
  have h2: "shelf_row 1 ''Dune'' ''H1'' \<in> set (books shelf)" by (simp add: shelf_def)
  have h3: "col_hash (shelf_row 1 ''Dune'' ''H1'') = Hash (inbound ''Dune (dup)'' ''H1'' [])"
    by (simp add: shelf_row_def inbound_def)
  have h4: "\<not> db_fault quiet Db_Begin \<and> \<not> db_fault quiet Db_Query_hash \<and>
            rows_fault quiet Db_Query_hash \<noteq> Some 0"
    by (simp add: quiet_def)
  have one: "strconv_Itoa (col_id (shelf_row 1 ''Dune'' ''H1'')) = ''1''"
    by (simp add: shelf_row_def strconv_Itoa_def digit_def)
  from duplicate_import_rejected [OF h1 h2 h3, of quiet home True "disk []"] h4 one
  have "ImportBook quiet home (inbound ''Dune (dup)'' ''H1'' []) True shelf (disk []) =
          (Some (Errorf ''A duplicate book already exists with id 1''), shelf, disk [])"
    by (simp add: prod_eq_iff)
  with h1 h2 h3 show ?thesis by simp
qed

text \<open>
  Claim C2. When \<^verbatim>\<open>ImportBook\<close> has inserted both rows in its transaction and
  \<^verbatim>\<open>moveOrCopyFile\<close> then returns an error, \<^verbatim>\<open>ImportBook\<close> returns that error wrapped
  and the database is the one it started from. The rows of the attempt are nowhere in
  it: the index has no row with the id that was handed out, and no call of
  \<^verbatim>\<open>GetBooksById\<close> or \<^verbatim>\<open>Search\<close> on it, in any environment, returns a book with that id
  or with the hash of the book.
\<close>

theorem failed_placement_rolls_back:
  assumes "ImportBook_records env book db = Inr (tx, id')"
    and "moveOrCopyFile env lib (book\<lparr>Id' := id'\<rparr>) move os = (Some err, os1)"
  shows "ImportBook env lib book move db os =
           (Some (Wrap err ''Moving or copying book''), db, os1) \<and>
         id' \<notin> fts_docid ` set (books_fts db) \<and>
         (\<forall>env2 ids. \<forall>b\<in>set (fst (GetBooksById env2 db ids)).
            Hash b \<noteq> Hash book \<and> Id' b \<noteq> id') \<and>
         (\<forall>env2 terms. \<forall>b\<in>set (fst (Search env2 db terms)).
            Hash b \<noteq> Hash book \<and> Id' b \<noteq> id')"
proof -
  from ImportBook_records_Inr [OF assms(1)]
  have fresh: "Hash book \<notin> col_hash ` set (books db)"
    and idx: "id' \<notin> fts_docid ` set (books_fts db)"
    and nxt: "id' = next_rowid (books db)"
    by auto
  have no_row: "col_hash r \<noteq> Hash book \<and> col_id r \<noteq> id'" if "r \<in> set (books db)" for r
    using that fresh nxt col_id_less_next_rowid [of r "books db"] by force
  have result: "ImportBook env lib book move db os =
                  (Some (Wrap err ''Moving or copying book''), db, os1)"
    using assms by (simp add: ImportBook_def tx_Rollback_def)
  have lookups: "Hash b \<noteq> Hash book \<and> Id' b \<noteq> id'"
    if "b \<in> set (fst (GetBooksById env2 db ids))" for env2 ids b
    using GetBooksById_origin [OF that] no_row by metis
  have searches: "Hash b \<noteq> Hash book \<and> Id' b \<noteq> id'"
    if "b \<in> set (fst (Search env2 db terms))" for env2 terms b
    using Search_origin [OF that] no_row by metis
  from result idx lookups searches show ?thesis by blast
qed

theorem failed_placement_rolls_back_witness:
  "\<exists>tx os1.
     ImportBook_records quiet (inbound ''Ulysses'' ''H3'' []) shelf = Inr (tx, 3) \<and>
     moveOrCopyFile quiet home (inbound ''Ulysses'' ''H3'' []\<lparr>Id' := 3\<rparr>) False (disk []) =
       (Some (Wrap (OsError (Sys_Open ''/in/Ulysses.epub'')) ''Copy file''), os1) \<and>
     ImportBook quiet home (inbound ''Ulysses'' ''H3'' []) False shelf (disk []) =
       (Some (Wrap (Wrap (OsError (Sys_Open ''/in/Ulysses.epub'')) ''Copy file'')
                ''Moving or copying book''), shelf, os1)"
proof -
  obtain tx where h1: "ImportBook_records quiet (inbound ''Ulysses'' ''H3'' []) shelf = Inr (tx, 3)"
    by (auto simp: db_defs example_defs)
  obtain os1 where h2:
    "moveOrCopyFile quiet home (inbound ''Ulysses'' ''H3'' []\<lparr>Id' := 3\<rparr>) False (disk []) =
       (Some (Wrap (OsError (Sys_Open ''/in/Ulysses.epub'')) ''Copy file''), os1)"
    by (auto simp: os_defs path_defs example_defs Let_def)
  from failed_placement_rolls_back [OF h1 h2] h1 h2 show ?thesis by blast
qed

text \<open>
  Claim C10. A book with no tags that \<^verbatim>\<open>ImportBook\<close> has added to the catalog (it
  returned nil and the catalog changed) is the new last row, its tags column is the empty
  string, and \<^verbatim>\<open>GetBooksById\<close> with its id, when the query works, returns it with the one
  empty tag. And no book that \<^verbatim>\<open>GetBooksById\<close> ever returns, from any catalog in any
  environment, has an empty list of tags.
\<close>

theorem empty_tags_one_empty_tag:
  assumes "Tags book = []"
    and "ImportBook env lib book move db os = (None, db2, os2)" and "db2 \<noteq> db"
    and "\<not> db_fault env Db_Query_ids" and "rows_fault env Db_Query_ids = None"
  shows "(\<exists>row b. books db2 = books db @ [row] \<and> col_hash row = Hash book \<and>
            col_tags row = Some [] \<and>
            GetBooksById env db2 [col_id row] = ([b], None) \<and>
            Hash b = Hash book \<and> Tags b = [[]]) \<and>
         (\<forall>env2 db3 ids. \<forall>b\<in>set (fst (GetBooksById env2 db3 ids)). 1 \<le> length (Tags b))"
proof -
  from ImportBook_changed [OF assms(2,3)] obtain id'
    where rec: "ImportBook_records env book db = Inr (db2, id')" by blast
  from ImportBook_records_Inr [OF rec] obtain row frow
    where row: "books db2 = books db @ [row]" "id' = next_rowid (books db)" "col_id row = id'"
      "col_hash row = Hash book" "col_series row = Some (Series book)"
      "col_tags row = Some (strings_Join (Tags book) ''/'')"
    by blast
  have old: "col_id r \<noteq> col_id row" if "r \<in> set (books db)" for r
    using col_id_less_next_rowid [OF that] row(2,3) by simp
  then have sel: "filter (\<lambda>r. col_id r \<in> set [col_id row]) (books db2) = [row]"
    by (simp add: row(1) filter_empty_conv)
  have tags: "col_tags row = Some []" using row(6) assms(1) by simp
  define b where "b = row_Book row"
  have "GetBooksById env db2 [col_id row] = ([b], None)"
    using sel assms(4,5) row(5) tags
    by (simp add: GetBooksById_def Query_ids_def db_cursor_def rows_Scan_def row_Book_def
          Book_zero_def b_def)
  moreover have "Hash b = Hash book \<and> Tags b = [[]]"
    using row(4,5) tags
    by (simp add: b_def row_Book_def strings_Split_def)
  ultimately have first: "\<exists>row b. books db2 = books db @ [row] \<and> col_hash row = Hash book \<and>
            col_tags row = Some [] \<and>
            GetBooksById env db2 [col_id row] = ([b], None) \<and>
            Hash b = Hash book \<and> Tags b = [[]]"
    using row(1,4) tags by blast
  have second: "1 \<le> length (Tags b)"
    if "b \<in> set (fst (GetBooksById env2 db3 ids))" for env2 db3 ids b
  proof -
    from GetBooksById_scan obtain rows
      where "fst (GetBooksById env2 db3 ids) = fst (scan_rows rows [])" by blast
    with that scan_rows_Tags [of "[]" rows] have "Tags b \<noteq> []" by simp
    then show ?thesis by (cases "Tags b") simp_all
  qed
  from first second show ?thesis by blast
qed

theorem empty_tags_one_empty_tag_witness:
  "Tags (inbound ''Ulysses'' ''H3'' []) = [] \<and>
   (\<exists>db2 os2 row b.
      ImportBook quiet home (inbound ''Ulysses'' ''H3'' []) False shelf (disk ulysses_file) =
        (None, db2, os2) \<and>
      db2 \<noteq> shelf \<and> books db2 = books shelf @ [row] \<and> col_tags row = Some [] \<and>
      GetBooksById quiet db2 [col_id row] = ([b], None) \<and> Tags b = [[]])"
proof -
  have h1: "Tags (inbound ''Ulysses'' ''H3'' []) = []" by (simp add: inbound_def)
  obtain db2 os2 where h2:
    "ImportBook quiet home (inbound ''Ulysses'' ''H3'' []) False shelf (disk ulysses_file) =
       (None, db2, os2)" and h3: "db2 \<noteq> shelf"
    by (auto simp: ImportBook_def db_defs os_defs path_defs example_defs ulysses_file_def Let_def)
  have h4: "\<not> db_fault quiet Db_Query_ids" and h5: "rows_fault quiet Db_Query_ids = None"
    by (simp_all add: quiet_def)
  from empty_tags_one_empty_tag [OF h1 h2 h3 h4 h5] h1 h2 h3 show ?thesis by blast
qed

lemma ImportBook_wf:
  assumes "wf_database db"
  shows "wf_database (fst (snd (ImportBook env lib book move db os)))"
proof (cases "fst (snd (ImportBook env lib book move db os)) = db")
  case True
  with assms show ?thesis by simp
next
  case False
  obtain e db2 os2 where run: "ImportBook env lib book move db os = (e, db2, os2)"
    by (cases "ImportBook env lib book move db os") auto
  with False have "db2 \<noteq> db" by simp
  from ImportBook_changed [OF run this] obtain id'
    where "ImportBook_records env book db = Inr (db2, id')" by blast
  from ImportBook_records_Inr [OF this] obtain row
    where row: "books db2 = books db @ [row]" "id' = next_rowid (books db)" "col_id row = id'"
      "col_hash row = Hash book" "col_series row = Some (Series book)"
      "col_tags row = Some (strings_Join (Tags book) ''/'')"
      "Hash book \<notin> col_hash ` set (books db)"
    by blast
  have "\<forall>r\<in>set (books db). col_id r < col_id row"
    using col_id_less_next_rowid row(2,3) by simp
  then have "sorted_wrt (<) (map col_id (books db2))"
    using assms by (simp add: wf_database_def row(1) sorted_wrt_append)
  moreover have "distinct (map col_hash (books db2))"
    using assms row(4,7) by (simp add: wf_database_def row(1))
  moreover have "\<forall>r\<in>set (books db2). scannable r"
    using assms row(5,6) by (auto simp: wf_database_def row(1) scannable_def)
  ultimately show ?thesis using run by (simp add: wf_database_def)
qed

subsection \<open>Lookup and search\<close>

lemma Ids_row_Books:
  "\<forall>r\<in>set rs. scannable r \<Longrightarrow> map Id' (map row_Book rs) = map col_id rs"
  by (induction rs) (simp_all add: Id_row_Book)


lemma GetBooksById_scannable:
  assumes "\<forall>r\<in>set (books db). scannable r"
    and "\<not> db_fault env Db_Query_ids" and "rows_fault env Db_Query_ids = None"
  shows "GetBooksById env db ids =
           (map row_Book (filter (\<lambda>r. col_id r \<in> set ids) (books db)), None)"
    and "map Id' (fst (GetBooksById env db ids)) =
           filter (\<lambda>i. i \<in> set ids) (map col_id (books db))"
proof -
  have sc: "\<forall>r\<in>set (books db). scannable r" by (rule assms(1))
  show res: "GetBooksById env db ids =
               (map row_Book (filter (\<lambda>r. col_id r \<in> set ids) (books db)), None)"
    using GetBooksById_results [OF assms(2,3) sc] .
  have "map Id' (map row_Book (filter (\<lambda>r. col_id r \<in> set ids) (books db))) =
          map col_id (filter (\<lambda>r. col_id r \<in> set ids) (books db))"
    using sc by (intro Ids_row_Books) simp
  also have "\<dots> = filter (\<lambda>i. i \<in> set ids) (map col_id (books db))"
    by (simp add: filter_map comp_def)
  finally show "map Id' (fst (GetBooksById env db ids)) =
                  filter (\<lambda>i. i \<in> set ids) (map col_id (books db))"
    by (simp only: res fst_conv)
qed

text \<open>
  Claim C5. On a catalog whose rows can be scanned, as \<^verbatim>\<open>ImportBook\<close> writes them,
  when the query and its cursor work, \<^verbatim>\<open>GetBooksById\<close> returns no error and exactly
  the records of the rows whose id is among the ids asked for, one for each such row: an
  id that no row has contributes nothing and is no error. Each returned book carries the
  columns of its row: id, hash, author, series, title, extension and file name are those
  of the row, and its tags are the tags column cut at the slashes. The empty list of ids
  gives the empty result and no error, in every environment.
\<close>

theorem GetBooksById_exact:
  assumes "\<forall>r\<in>set (books db). scannable r"
    and "\<not> db_fault env Db_Query_ids" and "rows_fault env Db_Query_ids = None"
  shows "GetBooksById env db ids =
           (map row_Book (filter (\<lambda>r. col_id r \<in> set ids) (books db)), None) \<and>
         map Id' (fst (GetBooksById env db ids)) =
           filter (\<lambda>i. i \<in> set ids) (map col_id (books db)) \<and>
         (\<forall>b\<in>set (fst (GetBooksById env db ids)).
            \<exists>r\<in>set (books db).
              col_id r \<in> set ids \<and> Id' b = col_id r \<and> Hash b = col_hash r \<and>
              Author b = col_author r \<and> col_series r = Some (Series b) \<and>
              Title b = col_title r \<and> Extension b = col_extension r \<and>
              (\<exists>tags. col_tags r = Some tags \<and> Tags b = strings_Split tags ''/'') \<and>
              CurrentFilename b = col_filename r) \<and>
         GetBooksById env db [] = ([], None)"
proof -
  have empty: "GetBooksById env db [] = ([], None)" by (simp add: GetBooksById_def)
  note res = GetBooksById_scannable [OF assms]
  have fields:
    "\<exists>r\<in>set (books db).
       col_id r \<in> set ids \<and> Id' b = col_id r \<and> Hash b = col_hash r \<and>
       Author b = col_author r \<and> col_series r = Some (Series b) \<and>
       Title b = col_title r \<and> Extension b = col_extension r \<and>
       (\<exists>tags. col_tags r = Some tags \<and> Tags b = strings_Split tags ''/'') \<and>
       CurrentFilename b = col_filename r"
    if "b \<in> set (fst (GetBooksById env db ids))" for b
  proof -
    from that obtain r where r: "r \<in> set (books db)" "col_id r \<in> set ids" "b = row_Book r"
      unfolding res(1) by auto
    from r(1) assms(1) obtain series tags
      where "col_series r = Some series" "col_tags r = Some tags"
      by (auto simp: scannable_def)
    with r show ?thesis by (auto simp: row_Book_def)
  qed
  from res empty fields show ?thesis by blast
qed

theorem GetBooksById_exact_witness:
  "scannable (shelf_row 1 ''Dune'' ''H1'') \<and> scannable (shelf_row 2 ''Emma'' ''H2'') \<and>
   \<not> db_fault quiet Db_Query_ids \<and> rows_fault quiet Db_Query_ids = None \<and>
   GetBooksById quiet shelf [7, 2] =
     ([\<lparr>Id' = 2, Author = ''Anon'', Series = [], Title = ''Emma'', Extension = ''epub'',
        Tags = [''scifi'', ''classic''], OriginalFilename = [],
        CurrentFilename = ''Emma.epub'', FileSize = 0, FileMtime = 0, Hash = ''H2'',
        RegexpName = [], Source = []\<rparr>], None) \<and>
   map Id' (fst (GetBooksById quiet shelf [7, 2])) = [2]"
proof -
  have s: "scannable (shelf_row 1 ''Dune'' ''H1'')" "scannable (shelf_row 2 ''Emma'' ''H2'')"
    by (simp_all add: scannable_def shelf_row_def)
  then have h1: "\<forall>r\<in>set (books shelf). scannable r" by (simp add: shelf_def)
  have h2: "\<not> db_fault quiet Db_Query_ids" and h3: "rows_fault quiet Db_Query_ids = None"
    by (simp_all add: quiet_def)
  have f: "filter (\<lambda>r. col_id r \<in> set [7, 2]) (books shelf) = [shelf_row 2 ''Emma'' ''H2'']"
    by (simp add: shelf_def shelf_row_def)
  have g: "filter (\<lambda>i. i \<in> set [7, 2]) (map col_id (books shelf)) = [2]"
    by (simp add: shelf_def shelf_row_def)
  have emma: "row_Book (shelf_row 2 ''Emma'' ''H2'') =
     \<lparr>Id' = 2, Author = ''Anon'', Series = [], Title = ''Emma'', Extension = ''epub'',
      Tags = [''scifi'', ''classic''], OriginalFilename = [],
      CurrentFilename = ''Emma.epub'', FileSize = 0, FileMtime = 0, Hash = ''H2'',
      RegexpName = [], Source = []\<rparr>"
    by (simp add: row_Book_def shelf_row_def strings_Split_def strings_HasPrefix_def)
  from GetBooksById_exact [OF h1 h2 h3, of "[7, 2]"]
  have "GetBooksById quiet shelf [7, 2] = ([row_Book (shelf_row 2 ''Emma'' ''H2'')], None)"
    and "map Id' (fst (GetBooksById quiet shelf [7, 2])) = [2]"
    unfolding f g list.map by blast+
  with s h2 h3 emma show ?thesis by simp
qed



subsection \<open>File placement\<close>

lemma files_issue [simp]: "files (issue c os) = files os"
  by (simp add: issue_def)

lemma dirs_issue [simp]: "dirs (issue c os) = dirs os"
  by (simp add: issue_def)

lemma copyFile_success:
  assumes "copyFile env src dst os = (None, os')"
  shows "\<exists>f. files os src = Some f \<and>
             files os' =
               (files os)(dst \<mapsto>
                  \<lparr>f_data = (if src = dst then [] else f_data f),
                   f_mtime = (if os_fault env (Sys_Chtimes dst (clock env) (f_mtime f))
                              then clock env else f_mtime f)\<rparr>)"
proof -
  from assms obtain f where f: "files os src = Some f"
    by (cases "files os src") (auto simp: copyFile_def os_Open_def Let_def domIff)
  from assms f show ?thesis
    by (auto simp: copyFile_def os_Open_def file_Stat_def os_Create_def io_Copy_def
                   file_Close_def os_Chtimes_def Let_def
             split: if_splits prod.splits option.splits sum.splits)
qed

text \<open>
  Claim C8, as the code has it. After \<^verbatim>\<open>copyFile\<close> has returned nil the source was a
  file, the destination is a file, and the modification time of the destination is the
  one the source had before the copy when the final \<^verbatim>\<open>os.Chtimes\<close> went through. The
  deferred function drops the result of \<^verbatim>\<open>os.Chtimes\<close>: when that call is refused,
  \<^verbatim>\<open>copyFile\<close> still returns nil and the destination keeps the time at which it was
  written.
\<close>

theorem copyFile_mtime:
  assumes "copyFile env src dst os = (None, os')"
  shows "\<exists>f f'. files os src = Some f \<and> files os' dst = Some f' \<and>
           f_mtime f' = (if os_fault env (Sys_Chtimes dst (clock env) (f_mtime f))
                         then clock env else f_mtime f)"
  using copyFile_success [OF assms] by auto

theorem copyFile_mtime_witness:
  "\<exists>os' f'.
     copyFile quiet ''/in/Ulysses.epub'' ''/books/Ulysses.epub'' (disk ulysses_file) = (None, os') \<and>
     \<not> os_fault quiet (Sys_Chtimes ''/books/Ulysses.epub'' (clock quiet) 1500000000) \<and>
     files os' ''/books/Ulysses.epub'' = Some f' \<and> f_mtime f' = 1500000000"
proof -
  obtain os' where h:
    "copyFile quiet ''/in/Ulysses.epub'' ''/books/Ulysses.epub'' (disk ulysses_file) = (None, os')"
    by (auto simp: os_defs example_defs ulysses_file_def Let_def)
  have src: "files (disk ulysses_file) ''/in/Ulysses.epub'' =
               Some \<lparr>f_data = ''text'', f_mtime = 1500000000\<rparr>"
    by (simp add: disk_def ulysses_file_def)
  have ok: "\<not> os_fault quiet (Sys_Chtimes ''/books/Ulysses.epub'' (clock quiet) 1500000000)"
    by (simp add: quiet_def)
  from copyFile_mtime [OF h] src ok obtain f'
    where "files os' ''/books/Ulysses.epub'' = Some f'" "f_mtime f' = 1500000000"
    by auto
  with h ok show ?thesis by blast
qed

text \<open>
  Claim C8 as stated fails where \<^verbatim>\<open>os.Chtimes\<close> is refused: the copy of a file last
  modified at 1500000000, made at 1700000000, returns nil and leaves a destination
  modified at 1700000000.
\<close>

theorem copyFile_mtime_counterexample:
  "fst (copyFile no_chtimes ''/in/Ulysses.epub'' ''/books/Ulysses.epub'' (disk ulysses_file)) = None \<and>
   map_option f_mtime (files (disk ulysses_file) ''/in/Ulysses.epub'') = Some 1500000000 \<and>
   map_option f_mtime
     (files (snd (copyFile no_chtimes ''/in/Ulysses.epub'' ''/books/Ulysses.epub''
                    (disk ulysses_file))) ''/books/Ulysses.epub'') = Some 1700000000"
  by (simp add: os_defs example_defs no_chtimes_def ulysses_file_def Let_def)

text \<open>
  Claim C7. When the rename of \<^verbatim>\<open>moveFile\<close> fails, the copy succeeds and the removal
  of the source fails, \<^verbatim>\<open>moveFile\<close> returns nil. The destination then holds the bytes
  that were copied (the bytes of the source; nothing when source and destination are one
  path, since the destination is truncated before it is read), and the source is still
  there, unchanged when it is another path than the destination.
\<close>

theorem moveFile_stale_source:
  assumes "os_Rename env src dst os = (Some err1, os1)"
    and "copyFile env src dst os1 = (None, os2)"
    and "os_Remove env src os2 = (Some err3, os3)"
  shows "moveFile env src dst os = (None, os3) \<and>
         (\<exists>f f'. files os src = Some f \<and> files os3 dst = Some f' \<and>
            f_data f' = (if src = dst then [] else f_data f) \<and>
            src \<in> dom (files os3) \<and>
            (src \<noteq> dst \<longrightarrow> files os3 src = Some f))"
proof -
  have res: "moveFile env src dst os = (None, os3)"
    using assms by (simp add: moveFile_def)
  have os1: "files os1 = files os"
    using assms(1) by (auto simp: os_Rename_def Let_def split: option.splits if_splits)
  have os3: "files os3 = files os2"
    using assms(3) by (auto simp: os_Remove_def Let_def split: if_splits)
  from copyFile_success [OF assms(2)] obtain f
    where f: "files os src = Some f"
      and os2: "files os2 =
        (files os)(dst \<mapsto>
           \<lparr>f_data = (if src = dst then [] else f_data f),
            f_mtime = (if os_fault env (Sys_Chtimes dst (clock env) (f_mtime f))
                       then clock env else f_mtime f)\<rparr>)"
    using os1 by auto
  define f' where "f' = the (files os3 dst)"
  have "files os3 dst = Some f'" "f_data f' = (if src = dst then [] else f_data f)"
    by (simp_all add: f'_def os3 os2)
  moreover have "src \<in> dom (files os3)" "src \<noteq> dst \<longrightarrow> files os3 src = Some f"
    using f by (auto simp: os3 os2)
  ultimately show ?thesis using res f by blast
qed

theorem moveFile_stale_source_witness:
  "\<exists>err1 os1 os2 err3 os3.
     os_Rename other_volume ''/in/Ulysses.epub'' ''/books/Ulysses.epub'' (disk ulysses_file) =
       (Some err1, os1) \<and>
     copyFile other_volume ''/in/Ulysses.epub'' ''/books/Ulysses.epub'' os1 = (None, os2) \<and>
     os_Remove other_volume ''/in/Ulysses.epub'' os2 = (Some err3, os3) \<and>
     moveFile other_volume ''/in/Ulysses.epub'' ''/books/Ulysses.epub'' (disk ulysses_file) =
       (None, os3) \<and>
     map_option f_data (files os3 ''/books/Ulysses.epub'') = Some ''text'' \<and>
     map_option f_data (files os3 ''/in/Ulysses.epub'') = Some ''text''"
proof -
  obtain err1 os1 where h1:
    "os_Rename other_volume ''/in/Ulysses.epub'' ''/books/Ulysses.epub'' (disk ulysses_file) =
       (Some err1, os1)"
    by (auto simp: os_defs example_defs other_volume_def ulysses_file_def Let_def)
  then have os1: "os1 = issue (Sys_Rename ''/in/Ulysses.epub'' ''/books/Ulysses.epub'')
                          (disk ulysses_file)"
    by (auto simp: os_Rename_def Let_def split: option.splits if_splits)
  obtain os2 where h2:
    "copyFile other_volume ''/in/Ulysses.epub'' ''/books/Ulysses.epub'' os1 = (None, os2)"
    unfolding os1
    by (auto simp: os_defs example_defs other_volume_def ulysses_file_def Let_def)
  obtain err3 os3 where h3:
    "os_Remove other_volume ''/in/Ulysses.epub'' os2 = (Some err3, os3)"
    by (auto simp: os_Remove_def other_volume_def quiet_def Let_def)
  have src: "files (disk ulysses_file) ''/in/Ulysses.epub'' =
               Some \<lparr>f_data = ''text'', f_mtime = 1500000000\<rparr>"
    by (simp add: disk_def ulysses_file_def)
  from moveFile_stale_source [OF h1 h2 h3] src
  have "moveFile other_volume ''/in/Ulysses.epub'' ''/books/Ulysses.epub'' (disk ulysses_file) =
          (None, os3)"
    and "map_option f_data (files os3 ''/books/Ulysses.epub'') = Some ''text''"
    and "map_option f_data (files os3 ''/in/Ulysses.epub'') = Some ''text''"
    by auto
  with h1 h2 h3 show ?thesis by blast
qed

subsection \<open>Unique names\<close>

lemma digit_value: "d < 10 \<Longrightarrow> of_char (digit d) = (48 + d :: nat)"
proof -
  assume "d < 10"
  then have "d \<in> {0, 1, 2, 3, 4, 5, 6, 7, 8, 9}" by auto
  then show ?thesis by (auto simp: digit_def)
qed

lemma formatBits_value:
  "foldl (\<lambda>a c. a * 10 + (of_char c - 48)) (0::nat) (formatBits n) = n"
proof (induction n rule: formatBits.induct)
  case (1 n)
  show ?case
  proof (cases "n < 10")
    case True
    then show ?thesis by (subst formatBits.simps) (simp add: digit_value)
  next
    case False
    have "n mod 10 < 10" by simp
    with False "1.IH" show ?thesis
      by (subst formatBits.simps) (simp add: digit_value)
  qed
qed

lemma formatBits_inj: "formatBits m = formatBits n \<Longrightarrow> m = n"
  by (metis formatBits_value)

lemma strconv_Itoa_inj: "0 \<le> i \<Longrightarrow> 0 \<le> j \<Longrightarrow> strconv_Itoa i = strconv_Itoa j \<Longrightarrow> i = j"
  using formatBits_inj [of "nat i" "nat j"] by (simp add: strconv_Itoa_def)

lemma numbered_inj: "0 \<le> i \<Longrightarrow> 0 \<le> j \<Longrightarrow> numbered f i = numbered f j \<Longrightarrow> i = j"
  using strconv_Itoa_inj [of i j] by (simp add: numbered_def)

lemma ext_scan_suffix: "\<exists>pre. rev cs @ seen = pre @ ext_scan cs seen"
proof (induction cs arbitrary: seen)
  case Nil
  then show ?case by simp
next
  case (Cons c cs)
  from Cons [of "c # seen"] show ?case by auto
qed

lemma TrimSuffix_Ext: "strings_TrimSuffix f (path_Ext f) @ path_Ext f = f"
proof -
  from ext_scan_suffix [of "rev f" "[]"] obtain pre where "f = pre @ path_Ext f"
    by (auto simp: path_Ext_def)
  then have "strings_HasSuffix f (path_Ext f)"
    and "take (length f - length (path_Ext f)) f = pre"
    by (metis strings_HasSuffix_def length_append le_add2 add_diff_cancel_right'
          append_eq_conv_conj)+
  then show ?thesis using \<open>f = pre @ path_Ext f\<close> by (simp add: strings_TrimSuffix_def)
qed

lemma GetUniqueName_loop_stop:
  "os_Stat env os newName \<noteq> None \<Longrightarrow>
     GetUniqueName_loop env os f ext i newName = Some newName"
  by (subst GetUniqueName_loop.simps) auto

lemma GetUniqueName_loop_step:
  "os_Stat env os newName = None \<Longrightarrow>
     GetUniqueName_loop env os f (path_Ext f) i newName =
       GetUniqueName_loop env os f (path_Ext f) (i + 1) (numbered f i)"
  by (subst GetUniqueName_loop.simps) (simp add: numbered_def)

lemma GetUniqueName_loop_finds:
  fixes f :: string
  defines "name \<equiv> \<lambda>k::int. if k = 0 then f else numbered f k"
  assumes "0 \<le> k" and "k \<le> K"
    and "os_Stat env os (name K) \<noteq> None"
    and "\<forall>j. k \<le> j \<and> j < K \<longrightarrow> os_Stat env os (name j) = None"
  shows "GetUniqueName_loop env os f (path_Ext f) (k + 1) (name k) = Some (name K)"
  using assms(2-)
proof (induction "nat (K - k)" arbitrary: k)
  case 0
  then have "k = K" by simp
  with "0.prems"(3) show ?case by (simp add: GetUniqueName_loop_stop)
next
  case (Suc n)
  then have less: "k < K" by linarith
  with Suc.prems(4) have taken: "os_Stat env os (name k) = None" by simp
  have next_name: "numbered f (k + 1) = name (k + 1)"
    using Suc.prems(1) by (simp add: name_def)
  have "n = nat (K - (k + 1))" using Suc.hyps(2) by linarith
  from Suc.hyps(1) [OF this] Suc.prems less
  have "GetUniqueName_loop env os f (path_Ext f) (k + 1 + 1) (name (k + 1)) = Some (name K)"
    by simp
  with taken next_name show ?case
    by (simp add: GetUniqueName_loop_step)
qed

lemma numbered_free:
  assumes "finite {p. present os p}"
  shows "\<exists>n. 1 \<le> n \<and> \<not> present os (numbered f (int n))"
proof (rule ccontr)
  assume "\<not> ?thesis"
  then have "(\<lambda>n. numbered f (int n)) ` {1..} \<subseteq> {p. present os p}" by auto
  then have "finite ((\<lambda>n. numbered f (int n)) ` {1..})"
    using assms by (rule finite_subset)
  moreover have "inj_on (\<lambda>n. numbered f (int n)) {1..}"
  proof (rule inj_onI)
    fix x y :: nat
    assume "numbered f (int x) = numbered f (int y)"
    then show "x = y" using numbered_inj [of "int x" "int y" f] by simp
  qed
  ultimately have "finite {1::nat ..}" by (rule finite_imageD)
  then show False by (simp add: infinite_Ici)
qed

text \<open>
  Claim C6. On a file system with finitely many entries, where \<^verbatim>\<open>os.Stat\<close> fails only
  for a name that is not there, \<^verbatim>\<open>GetUniqueName\<close> of a name \<open>f\<close> that is taken returns:
  the loop ends. The result is \<open>f\<close> with \<^verbatim>\<open> (N)\<close> put before its extension, for the
  first \<open>N\<close> among 1, 2, 3, ... whose name is not on the file system; the names of all
  smaller numbers are. The numbers tried are no more than the entries of the file system,
  so the 64-bit counter of the source does not overflow.
\<close>

theorem GetUniqueName_numbered:
  assumes "finite (dom (files os))" and "finite (dirs os)"
    and "\<forall>p. \<not> os_fault env (Sys_Stat p)"
    and "present os f"
  shows "\<exists>N. 1 \<le> N \<and> GetUniqueName env os f = Some (numbered f N) \<and>
           \<not> present os (numbered f N) \<and>
           (\<forall>j. 1 \<le> j \<and> j < N \<longrightarrow> present os (numbered f j)) \<and>
           nat (N - 1) \<le> card (dom (files os) \<union> dirs os) \<and>
           strings_TrimSuffix f (path_Ext f) @ path_Ext f = f"
proof -
  have stat: "os_Stat env os p = None \<longleftrightarrow> present os p" for p
    using assms(3) by (simp add: os_Stat_def)
  have entries: "{p. present os p} = dom (files os) \<union> dirs os"
    by (auto simp: present_def)
  then have fin: "finite {p. present os p}" using assms(1,2) by simp
  from numbered_free [OF this, of f]
  have "\<exists>n. 1 \<le> n \<and> \<not> present os (numbered f (int n))" .
  then obtain n where n: "1 \<le> n \<and> \<not> present os (numbered f (int n))"
    and least: "\<forall>m<n. \<not> (1 \<le> m \<and> \<not> present os (numbered f (int m)))"
    using exists_least_iff [of "\<lambda>n. 1 \<le> n \<and> \<not> present os (numbered f (int n))"] by blast
  define N where "N = int n"
  have N1: "1 \<le> N" using n by (simp add: N_def)
  have free: "\<not> present os (numbered f N)" using n by (simp add: N_def)
  have before: "present os (numbered f j)" if "1 \<le> j" "j < N" for j
  proof -
    have "nat j < n" "1 \<le> nat j" using that by (simp_all add: N_def)
    with least have "present os (numbered f (int (nat j)))" by blast
    with that show ?thesis by simp
  qed
  have gone: "os_Stat env os (if N = 0 then f else numbered f N) \<noteq> None"
    using N1 free by (simp add: stat)
  have there: "\<forall>j. 0 \<le> j \<and> j < N \<longrightarrow>
                 os_Stat env os (if j = 0 then f else numbered f j) = None"
    using before assms(4) by (auto simp: stat)
  have "(0::int) \<le> 0" and "0 \<le> N" using N1 by simp_all
  from GetUniqueName_loop_finds [OF this gone there]
  have "GetUniqueName env os f = Some (numbered f N)"
    using N1 by (simp add: GetUniqueName_def)
  moreover have "nat (N - 1) \<le> card (dom (files os) \<union> dirs os)"
  proof -
    have "inj_on (numbered f) {1..<N}"
      by (rule inj_onI) (use numbered_inj in force)
    moreover have "numbered f ` {1..<N} \<subseteq> {p. present os p}"
      using before by auto
    ultimately have "card {1..<N} \<le> card {p. present os p}"
      using fin by (intro card_inj_on_le)
    then show ?thesis by (simp add: entries)
  qed
  ultimately show ?thesis using N1 free before TrimSuffix_Ext by blast
qed

lemma numbered_foo:
  "numbered ''foo.epub'' 1 = ''foo (1).epub''" "numbered ''foo.epub'' 2 = ''foo (2).epub''"
  by (simp_all add: numbered_def path_Ext_def strings_TrimSuffix_def strings_HasSuffix_def
        strconv_Itoa_def digit_def)

theorem GetUniqueName_numbered_witness:
  "finite (dom (files one_foo)) \<and> finite (dirs one_foo) \<and>
   (\<forall>p. \<not> os_fault quiet (Sys_Stat p)) \<and> present one_foo ''foo.epub'' \<and>
   GetUniqueName quiet one_foo ''foo.epub'' = Some ''foo (1).epub'' \<and>
   finite (dom (files two_foos)) \<and> finite (dirs two_foos) \<and> present two_foos ''foo.epub'' \<and>
   present two_foos ''foo (1).epub'' \<and>
   GetUniqueName quiet two_foos ''foo.epub'' = Some ''foo (2).epub''"
proof -
  have q: "\<forall>p. \<not> os_fault quiet (Sys_Stat p)" by (simp add: quiet_def)
  have a1: "finite (dom (files one_foo))" and a2: "finite (dirs one_foo)"
    and a3: "present one_foo ''foo.epub''"
    and a4: "\<not> present one_foo ''foo (1).epub''"
    by (simp_all add: one_foo_def disk_def present_def finite_dom_map_of)
  have b1: "finite (dom (files two_foos))" and b2: "finite (dirs two_foos)"
    and b3: "present two_foos ''foo.epub''"
    and b4: "present two_foos ''foo (1).epub''"
    and b5: "\<not> present two_foos ''foo (2).epub''"
    by (simp_all add: two_foos_def disk_def present_def finite_dom_map_of)
  from GetUniqueName_numbered [OF a1 a2 q a3] obtain N
    where N: "1 \<le> N" "GetUniqueName quiet one_foo ''foo.epub'' = Some (numbered ''foo.epub'' N)"
      "\<forall>j. 1 \<le> j \<and> j < N \<longrightarrow> present one_foo (numbered ''foo.epub'' j)"
    by blast
  have "\<not> 1 < N"
  proof
    assume "1 < N"
    with N(3) have "present one_foo (numbered ''foo.epub'' 1)" by simp
    with a4 show False by (simp add: numbered_foo)
  qed
  with N(1) have "N = 1" by simp
  with N(2) have first: "GetUniqueName quiet one_foo ''foo.epub'' = Some ''foo (1).epub''"
    by (simp add: numbered_foo)
  from GetUniqueName_numbered [OF b1 b2 q b3] obtain M
    where M: "1 \<le> M" "GetUniqueName quiet two_foos ''foo.epub'' = Some (numbered ''foo.epub'' M)"
      "\<not> present two_foos (numbered ''foo.epub'' M)"
      "\<forall>j. 1 \<le> j \<and> j < M \<longrightarrow> present two_foos (numbered ''foo.epub'' j)"
    by blast
  have "M \<noteq> 1" using M(3) b4 by (auto simp: numbered_foo)
  moreover have "\<not> 2 < M"
  proof
    assume "2 < M"
    with M(4) have "present two_foos (numbered ''foo.epub'' 2)" by simp
    with b5 show False by (simp add: numbered_foo)
  qed
  ultimately have "M = 2" using M(1) by simp
  with M(2) have second: "GetUniqueName quiet two_foos ''foo.epub'' = Some ''foo (2).epub''"
    by (simp add: numbered_foo)
  from q a1 a2 a3 first b1 b2 b3 b4 second show ?thesis by blast
qed

subsection \<open>Conversion\<close>

lemma clean_elem_junk [simp]:
  "clean_elem rooted acc [] = acc" "clean_elem rooted acc ''.'' = acc"
  by simp_all

lemma clean_elem_plain [simp]: "plain e \<Longrightarrow> clean_elem rooted acc e = e # acc"
  by (simp add: plain_def)

lemma clean_elem_dotdot:
  "clean_elem rooted acc ''..'' =
     (case acc of
        [] \<Rightarrow> if rooted then [] else [''..'']
      | t # ts \<Rightarrow> if t = ''..'' then ''..'' # acc else ts)"
  by simp

declare clean_elem.simps [simp del]

declare genSplit.simps(2) [simp del]

lemma path_Clean_render:
  "p \<noteq> [] \<Longrightarrow>
     path_Clean p =
       path_render (hd p = CHR ''/'')
         (rev (foldl (clean_elem (hd p = CHR ''/'')) [] (genSplit ''/'' [] p)))"
  by (simp add: path_Clean_def path_render_def Let_def)

lemma dotdots_clean_stack: "\<not> rooted \<Longrightarrow> \<forall>x\<in>set ts. x = ''..'' \<Longrightarrow> clean_stack rooted ts"
  by (induction ts) auto

lemma clean_stack_tail:
  assumes "clean_stack rooted (t # ts)"
  shows "clean_stack rooted ts"
proof (cases "t = ''..''")
  case True
  with assms have "\<not> rooted" and "\<forall>x\<in>set ts. x = ''..''" by simp_all
  then show ?thesis by (rule dotdots_clean_stack)
next
  case False
  with assms show ?thesis by simp
qed

lemma clean_stack_elems:
  "clean_stack rooted ts \<Longrightarrow> x \<in> set ts \<Longrightarrow> x \<noteq> [] \<and> CHR ''/'' \<notin> set x"
proof (induction ts)
  case Nil
  then show ?case by simp
next
  case (Cons t ts)
  show ?case
  proof (cases "t = ''..''")
    case True
    with Cons.prems have "x = ''..''" by auto
    then show ?thesis by simp
  next
    case False
    with Cons.prems(1) have t: "plain t" and ts: "clean_stack rooted ts" by simp_all
    show ?thesis
    proof (cases "x = t")
      case True
      with t show ?thesis by (simp add: plain_def)
    next
      case False
      with Cons.prems(2) have "x \<in> set ts" by simp
      with Cons.IH ts show ?thesis by simp
    qed
  qed
qed

lemma clean_elem_stack:
  assumes "clean_stack rooted acc" and "CHR ''/'' \<notin> set e"
  shows "clean_stack rooted (clean_elem rooted acc e)"
proof -
  consider "e = [] \<or> e = ''.''" | "e = ''..''" | "plain e"
    using assms(2) by (auto simp: plain_def)
  then show ?thesis
  proof cases
    case 1
    with assms(1) show ?thesis by auto
  next
    case 2
    show ?thesis
    proof (cases acc)
      case Nil
      then show ?thesis using 2 by (simp add: clean_elem_dotdot)
    next
      case (Cons t ts)
      show ?thesis
      proof (cases "t = ''..''")
        case True
        with assms(1) Cons 2 show ?thesis by (simp add: clean_elem_dotdot)
      next
        case False
        with assms(1) Cons 2 show ?thesis by (simp add: clean_elem_dotdot)
      qed
    qed
  next
    case 3
    with assms(1) show ?thesis by (auto simp: plain_def)
  qed
qed

lemma foldl_clean_stack:
  "clean_stack rooted acc \<Longrightarrow> \<forall>e\<in>set es. CHR ''/'' \<notin> set e \<Longrightarrow>
     clean_stack rooted (foldl (clean_elem rooted) acc es)"
  by (induction es arbitrary: acc) (simp_all add: clean_elem_stack)

lemma genSplit_elems:
  "CHR ''/'' \<notin> set cur \<Longrightarrow> \<forall>x\<in>set (genSplit ''/'' cur s). CHR ''/'' \<notin> set x"
proof (induction s arbitrary: cur)
  case Nil
  then show ?case by simp
next
  case (Cons c s)
  show ?case
  proof (cases "c = CHR ''/''")
    case True
    with Cons.prems Cons.IH [of "[]"] show ?thesis
      by (simp add: genSplit_slash_Cons)
  next
    case False
    with Cons.prems Cons.IH [of "cur @ [c]"] show ?thesis
      by (simp add: genSplit_slash_Cons)
  qed
qed

lemma clean_elem_push:
  "clean_stack rooted (x # acc) \<Longrightarrow> clean_elem rooted acc x = x # acc"
  by (cases acc) (auto simp: clean_elem_dotdot split: if_splits)

lemma foldl_clean_fixed:
  "clean_stack rooted (rev st) \<Longrightarrow> foldl (clean_elem rooted) [] st = rev st"
proof (induction st rule: rev_induct)
  case Nil
  then show ?case by simp
next
  case (snoc x xs)
  then have top: "clean_stack rooted (x # rev xs)" by simp
  then have "clean_stack rooted (rev xs)" by (rule clean_stack_tail)
  with snoc.IH have "foldl (clean_elem rooted) [] xs = rev xs" by simp
  with clean_elem_push [OF top] show ?case by simp
qed

lemma strings_Join_snoc:
  "st \<noteq> [] \<Longrightarrow> strings_Join (st @ [n]) sep = strings_Join st sep @ sep @ n"
  by (induction st sep rule: strings_Join.induct) auto

lemma genSplit_slash_first: "genSplit ''/'' [] (CHR ''/'' # s) = [] # genSplit ''/'' [] s"
  by (simp add: genSplit_slash_Cons)

lemma hd_strings_Join:
  assumes "st \<noteq> []" and "hd st \<noteq> []"
  shows "hd (strings_Join st sep @ rest) = hd (hd st)"
proof (cases st)
  case Nil
  with assms show ?thesis by simp
next
  case (Cons x xs)
  with assms show ?thesis by (cases xs) auto
qed

lemma path_Clean_append:
  assumes "clean_stack rooted acc" and "CHR ''/'' \<notin> set n"
  shows "path_Clean (path_render rooted (rev acc) @ ''/'' @ n) =
           path_render rooted (rev (clean_elem rooted acc n))"
proof -
  define st where "st = rev acc"
  have elems: "\<forall>x\<in>set (st @ [n]). CHR ''/'' \<notin> set x"
    using assms clean_stack_elems [OF assms(1)] by (auto simp: st_def)
  have fixed: "foldl (clean_elem rooted) [] st = acc"
    using foldl_clean_fixed [of rooted st] assms(1) by (simp add: st_def)
  define p where "p = path_render rooted st @ ''/'' @ n"
  have "p \<noteq> []" by (simp add: p_def)
  have split: "genSplit ''/'' [] (strings_Join (st @ [n]) ''/'') = st @ [n]"
    using elems by (intro genSplit_Join) simp_all
  have p: "hd p = CHR ''/'' \<longleftrightarrow> rooted"
    and fold: "foldl (clean_elem rooted) [] (genSplit ''/'' [] p) = clean_elem rooted acc n"
  proof -
    consider (a) "rooted" "st = []" | (b) "rooted" "st \<noteq> []"
      | (c) "\<not> rooted" "st = []" | (d) "\<not> rooted" "st \<noteq> []" by blast
    then have "(hd p = CHR ''/'' \<longleftrightarrow> rooted) \<and>
               foldl (clean_elem rooted) [] (genSplit ''/'' [] p) = clean_elem rooted acc n"
    proof cases
      case a
      then have "p = CHR ''/'' # CHR ''/'' # n" by (simp add: p_def path_render_def)
      moreover have "acc = []" using a by (simp add: st_def)
      moreover have "genSplit ''/'' [] (CHR ''/'' # CHR ''/'' # n) = [[], [], n]"
        using assms(2) by (simp add: genSplit_slash_first genSplit_no_slash)
      ultimately show ?thesis
        using a by simp
    next
      case b
      then have "p = CHR ''/'' # strings_Join (st @ [n]) ''/''"
        by (simp add: p_def path_render_def strings_Join_snoc)
      then show ?thesis
        using b split fixed by (simp add: genSplit_slash_first)
    next
      case c
      then have "p = CHR ''.'' # CHR ''/'' # n" by (simp add: p_def path_render_def)
      moreover have "acc = []" using c by (simp add: st_def)
      moreover have "genSplit ''/'' [] (CHR ''.'' # CHR ''/'' # n) = [''.'', n]"
        using assms(2) genSplit_piece [of "''.''" "[]" n] by (simp add: genSplit_no_slash)
      ultimately show ?thesis
        using c by simp
    next
      case d
      then have eq: "p = strings_Join (st @ [n]) ''/''"
        by (simp add: p_def path_render_def strings_Join_snoc)
      have "hd st \<in> set st" using d by simp
      then have "hd st \<noteq> [] \<and> CHR ''/'' \<notin> set (hd st)"
        using clean_stack_elems [OF assms(1)] by (simp add: st_def)
      then have "hd (hd st) \<noteq> CHR ''/''" by (cases "hd st") auto
      moreover have "hd p = hd (hd st)"
        using d \<open>hd st \<noteq> [] \<and> CHR ''/'' \<notin> set (hd st)\<close>
        by (simp add: p_def path_render_def hd_strings_Join)
      ultimately show ?thesis
        using d split fixed eq by simp
    qed
    then show "hd p = CHR ''/'' \<longleftrightarrow> rooted"
      and "foldl (clean_elem rooted) [] (genSplit ''/'' [] p) = clean_elem rooted acc n"
      by blast+
  qed
  from path_Clean_render [OF \<open>p \<noteq> []\<close>] p fold show ?thesis
    by (simp add: p_def st_def)
qed

lemma path_Split_last:
  assumes "CHR ''/'' \<notin> set n" and "pre = [] \<or> last pre = CHR ''/''"
  shows "path_Split (pre @ n) = (pre, n)"
proof -
  have all: "\<And>x. x \<in> set (rev n) \<Longrightarrow> x \<noteq> CHR ''/''" using assms(1) by auto
  have stop: "takeWhile (\<lambda>c. c \<noteq> CHR ''/'') (rev pre) = []"
    and keep: "dropWhile (\<lambda>c. c \<noteq> CHR ''/'') (rev pre) = rev pre"
    using assms(2) by (cases pre rule: rev_cases; simp)+
  have "takeWhile (\<lambda>c. c \<noteq> CHR ''/'') (rev n @ rev pre) =
          rev n @ takeWhile (\<lambda>c. c \<noteq> CHR ''/'') (rev pre)"
    by (rule takeWhile_append2) (rule all)
  then have "takeWhile (\<lambda>c. c \<noteq> CHR ''/'') (rev n @ rev pre) = rev n"
    by (simp only: stop append_Nil2)
  moreover have "dropWhile (\<lambda>c. c \<noteq> CHR ''/'') (rev n @ rev pre) =
                   dropWhile (\<lambda>c. c \<noteq> CHR ''/'') (rev pre)"
    by (rule dropWhile_append2) (rule all)
  then have "dropWhile (\<lambda>c. c \<noteq> CHR ''/'') (rev n @ rev pre) = rev pre"
    by (simp only: keep)
  ultimately show ?thesis by (simp add: path_Split_def)
qed


lemma path_render_snoc:
  "path_render rooted (st @ [n]) =
     (if st = [] then (if rooted then ''/'' else []) else path_render rooted st @ ''/'') @ n"
  by (cases "st = []") (auto simp: path_render_def strings_Join_snoc)

lemma path_render_not_Nil:
  assumes "clean_stack rooted acc"
  shows "path_render rooted (rev acc) \<noteq> []"
proof (cases "rooted \<or> acc = []")
  case True
  then show ?thesis by (auto simp: path_render_def)
next
  case False
  then have ne: "rev acc \<noteq> []" by simp
  then have "hd (rev acc) \<in> set acc" by (metis hd_in_set set_rev)
  with clean_stack_elems [OF assms] have "hd (rev acc) \<noteq> []" by blast
  moreover obtain x xs where "rev acc = x # xs" using ne by (cases "rev acc") auto
  ultimately have "strings_Join (rev acc) ''/'' \<noteq> []"
    by (cases xs) auto
  with False show ?thesis by (simp add: path_render_def)
qed

lemma path_Clean_canonical:
  "\<exists>rooted acc. clean_stack rooted acc \<and> path_Clean x = path_render rooted (rev acc)"
proof (cases "x = []")
  case True
  have "clean_stack False []" by simp
  moreover have "path_Clean x = path_render False (rev [])"
    using True by (simp add: path_Clean_def path_render_def)
  ultimately show ?thesis by blast
next
  case False
  define rooted where "rooted = (hd x = CHR ''/'')"
  define acc where "acc = foldl (clean_elem rooted) [] (genSplit ''/'' [] x)"
  have "clean_stack rooted acc"
    unfolding acc_def by (intro foldl_clean_stack genSplit_elems) simp_all
  moreover have "path_Clean x = path_render rooted (rev acc)"
    using path_Clean_render [OF False] by (simp add: rooted_def acc_def)
  ultimately show ?thesis by blast
qed

lemma path_Clean_slash: "path_Clean ''/'' = ''/''"
  by (simp add: path_Clean_def genSplit_slash_first)

lemma path_Join_plain:
  assumes "clean_stack rooted acc" and "plain n"
  shows "path_Join [path_render rooted (rev acc), n] = path_render rooted (rev (n # acc))"
    and "path_Dir (path_Join [path_render rooted (rev acc), n]) = path_render rooted (rev acc)"
    and "snd (path_Split (path_Join [path_render rooted (rev acc), n])) = n"
proof -
  define d where "d = path_render rooted (rev acc)"
  have d: "d \<noteq> []" unfolding d_def using assms(1) by (rule path_render_not_Nil)
  have n: "n \<noteq> []" "CHR ''/'' \<notin> set n" using assms(2) by (simp_all add: plain_def)
  have "path_Join [d, n] = path_Clean (d @ ''/'' @ n)"
    using d n by (simp add: path_Join_def)
  also have "\<dots> = path_render rooted (rev (clean_elem rooted acc n))"
    unfolding d_def using assms(1) n(2) by (rule path_Clean_append)
  finally have joined: "path_Join [d, n] = path_render rooted (rev (n # acc))"
    using assms(2) by simp
  define pre where
    "pre = (if rev acc = [] then (if rooted then ''/'' else []) else d @ ''/'')"
  have shape: "path_Join [d, n] = pre @ n"
    using joined by (simp add: path_render_snoc pre_def d_def)
  have "pre = [] \<or> last pre = CHR ''/''" by (simp add: pre_def)
  with n(2) have split: "path_Split (pre @ n) = (pre, n)" by (rule path_Split_last)
  have "path_Clean pre = d"
  proof (cases "rev acc = []")
    case True
    show ?thesis
    proof (cases rooted)
      case True
      with \<open>rev acc = []\<close> show ?thesis
        by (simp add: pre_def d_def path_Clean_slash path_render_def)
    next
      case False
      with \<open>rev acc = []\<close> show ?thesis
        by (simp add: pre_def d_def path_render_def path_Clean_def)
    qed
  next
    case False
    have "path_Clean (path_render rooted (rev acc) @ ''/'' @ []) =
            path_render rooted (rev (clean_elem rooted acc []))"
      using assms(1) by (intro path_Clean_append) simp_all
    with False show ?thesis by (simp add: pre_def d_def)
  qed
  with shape split show "path_Dir (path_Join [path_render rooted (rev acc), n]) =
                           path_render rooted (rev acc)"
    and "snd (path_Split (path_Join [path_render rooted (rev acc), n])) = n"
    by (simp_all add: path_Dir_def d_def)
  from joined show "path_Join [path_render rooted (rev acc), n] =
                      path_render rooted (rev (n # acc))"
    by (simp add: d_def)
qed

lemma cache_file_place:
  assumes "CHR ''/'' \<notin> set (Hash book)"
  shows "snd (path_Split (cache_file lib book)) = Hash book @ ''.epub''"
    and "path_Dir (cache_file lib book) = path_Join [path_Dir (filename lib), ''cache'']"
    and "snd (path_Split (path_Join [path_Dir (filename lib), ''cache''])) = ''cache''"
    and "path_Dir (path_Join [path_Dir (filename lib), ''cache'']) = path_Dir (filename lib)"
proof -
  from path_Clean_canonical [of "fst (path_Split (filename lib))"] obtain rooted acc
    where acc: "clean_stack rooted acc"
      and dir: "path_Dir (filename lib) = path_render rooted (rev acc)"
    by (auto simp: path_Dir_def)
  have cache: "plain ''cache''" by (simp add: plain_def)
  have name: "plain (Hash book @ ''.epub'')" using assms by (auto simp: plain_def)
  have acc2: "clean_stack rooted (''cache'' # acc)" using acc cache by simp
  from path_Join_plain [OF acc cache]
  have cd: "path_Join [path_Dir (filename lib), ''cache''] =
              path_render rooted (rev (''cache'' # acc))"
    and up: "path_Dir (path_Join [path_Dir (filename lib), ''cache'']) = path_Dir (filename lib)"
    and nm: "snd (path_Split (path_Join [path_Dir (filename lib), ''cache''])) = ''cache''"
    unfolding dir by blast+
  from path_Join_plain [OF acc2 name]
  have "snd (path_Split (cache_file lib book)) = Hash book @ ''.epub''"
    and "path_Dir (cache_file lib book) = path_Join [path_Dir (filename lib), ''cache'']"
    unfolding cache_file_def cd by blast+
  with up nm
  show "snd (path_Split (cache_file lib book)) = Hash book @ ''.epub''"
    and "path_Dir (cache_file lib book) = path_Join [path_Dir (filename lib), ''cache'']"
    and "snd (path_Split (path_Join [path_Dir (filename lib), ''cache''])) = ''cache''"
    and "path_Dir (path_Join [path_Dir (filename lib), ''cache'']) = path_Dir (filename lib)"
    by blast+
qed

text \<open>
  Claim C9, as the code has it. \<^verbatim>\<open>ConvertToEpub\<close> starts one process,
  \<^verbatim>\<open>ebook-convert\<close>, with exactly two arguments: the current file name of the book
  joined to the books root, then the cache file. Its result is nil when the process
  started and exited with code zero, and an error when it could not be started or exited
  with another code; it returns nothing else, so the path of the cache file is not
  returned. When the hash contains no slash, the cache file is named by the hash followed
  by \<^verbatim>\<open>.epub\<close> and lies in the directory \<^verbatim>\<open>cache\<close> next to the catalog file.
\<close>

theorem ConvertToEpub_contract:
  "snd (ConvertToEpub env lib book os) =
     issue (Sys_Run ''ebook-convert''
              [path_Join [booksRoot lib, CurrentFilename book], cache_file lib book]) os \<and>
   fst (ConvertToEpub env lib book os) =
     (case run_exit env ''ebook-convert''
             [path_Join [booksRoot lib, CurrentFilename book], cache_file lib book] of
        None \<Rightarrow> Some (OsError (Sys_Run ''ebook-convert''
                   [path_Join [booksRoot lib, CurrentFilename book], cache_file lib book]))
      | Some code \<Rightarrow> if code = 0 then None else Some (ExitError code)) \<and>
   (CHR ''/'' \<notin> set (Hash book) \<longrightarrow>
      snd (path_Split (cache_file lib book)) = Hash book @ ''.epub'' \<and>
      path_Dir (cache_file lib book) = path_Join [path_Dir (filename lib), ''cache''] \<and>
      snd (path_Split (path_Join [path_Dir (filename lib), ''cache''])) = ''cache'' \<and>
      path_Dir (path_Join [path_Dir (filename lib), ''cache'']) = path_Dir (filename lib))"
proof -
  have run: "snd (ConvertToEpub env lib book os) =
     issue (Sys_Run ''ebook-convert''
              [path_Join [booksRoot lib, CurrentFilename book], cache_file lib book]) os"
    by (simp add: ConvertToEpub_def cmd_Run_def cache_file_def Let_def
             split: option.splits prod.splits)
  have res: "fst (ConvertToEpub env lib book os) =
     (case run_exit env ''ebook-convert''
             [path_Join [booksRoot lib, CurrentFilename book], cache_file lib book] of
        None \<Rightarrow> Some (OsError (Sys_Run ''ebook-convert''
                   [path_Join [booksRoot lib, CurrentFilename book], cache_file lib book]))
      | Some code \<Rightarrow> if code = 0 then None else Some (ExitError code))"
    by (simp add: ConvertToEpub_def cmd_Run_def cache_file_def Let_def
             split: option.splits prod.splits)
  from run res cache_file_place [of book lib] show ?thesis by blast
qed

lemma Dune_paths:
  "path_Join [booksRoot home, CurrentFilename (inbound ''Dune'' ''H1'' [])] = ''/books/Dune.epub''"
  "cache_file home (inbound ''Dune'' ''H1'' []) = ''/var/lib/cache/H1.epub''"
  "cache_file home (inbound ''Emma'' ''H2'' []) = ''/var/lib/cache/H2.epub''"
  by (simp_all add: cache_file_def path_Join_def path_Dir_def path_Split_def path_Clean_def
        strings_HasPrefix_def genSplit.simps clean_elem.simps home_def inbound_def)

theorem ConvertToEpub_contract_witness:
  "CHR ''/'' \<notin> set (Hash (inbound ''Dune'' ''H1'' [])) \<and>
   ConvertToEpub quiet home (inbound ''Dune'' ''H1'' []) (disk []) =
     (None, issue (Sys_Run ''ebook-convert'' [''/books/Dune.epub'', ''/var/lib/cache/H1.epub''])
              (disk [])) \<and>
   fst (ConvertToEpub failing_converter home (inbound ''Dune'' ''H1'' []) (disk [])) =
     Some (ExitError 1) \<and>
   fst (ConvertToEpub no_converter home (inbound ''Dune'' ''H1'' []) (disk [])) =
     Some (OsError (Sys_Run ''ebook-convert''
             [''/books/Dune.epub'', ''/var/lib/cache/H1.epub''])) \<and>
   snd (path_Split ''/var/lib/cache/H1.epub'') = ''H1.epub'' \<and>
   path_Dir ''/var/lib/cache/H1.epub'' = path_Join [path_Dir ''/var/lib/books.db'', ''cache''] \<and>
   path_Dir (path_Join [path_Dir ''/var/lib/books.db'', ''cache'']) =
     path_Dir ''/var/lib/books.db''"
proof -
  have h: "CHR ''/'' \<notin> set (Hash (inbound ''Dune'' ''H1'' []))" by (simp add: inbound_def)
  have name: "Hash (inbound ''Dune'' ''H1'' []) @ ''.epub'' = ''H1.epub''"
    by (simp add: inbound_def)
  have lib: "filename home = ''/var/lib/books.db''" by (simp add: home_def)
  have ok: "run_exit quiet ''ebook-convert'' [''/books/Dune.epub'', ''/var/lib/cache/H1.epub''] =
              Some 0"
    and bad: "run_exit failing_converter ''ebook-convert''
                [''/books/Dune.epub'', ''/var/lib/cache/H1.epub''] = Some 1"
    and none: "run_exit no_converter ''ebook-convert''
                [''/books/Dune.epub'', ''/var/lib/cache/H1.epub''] = None"
    by (simp_all add: quiet_def failing_converter_def no_converter_def)
  from ConvertToEpub_contract [of quiet home "inbound ''Dune'' ''H1'' []" "disk []"] h
  have a: "ConvertToEpub quiet home (inbound ''Dune'' ''H1'' []) (disk []) =
     (None, issue (Sys_Run ''ebook-convert'' [''/books/Dune.epub'', ''/var/lib/cache/H1.epub''])
              (disk []))"
    and p: "snd (path_Split ''/var/lib/cache/H1.epub'') = ''H1.epub''"
       "path_Dir ''/var/lib/cache/H1.epub'' = path_Join [path_Dir ''/var/lib/books.db'', ''cache'']"
       "path_Dir (path_Join [path_Dir ''/var/lib/books.db'', ''cache'']) =
          path_Dir ''/var/lib/books.db''"
    unfolding Dune_paths name lib ok by (simp_all add: prod_eq_iff)
  from ConvertToEpub_contract [of failing_converter home "inbound ''Dune'' ''H1'' []" "disk []"]
  have b: "fst (ConvertToEpub failing_converter home (inbound ''Dune'' ''H1'' []) (disk [])) =
             Some (ExitError 1)"
    unfolding Dune_paths bad by simp
  from ConvertToEpub_contract [of no_converter home "inbound ''Dune'' ''H1'' []" "disk []"]
  have c: "fst (ConvertToEpub no_converter home (inbound ''Dune'' ''H1'' []) (disk [])) =
             Some (OsError (Sys_Run ''ebook-convert''
                     [''/books/Dune.epub'', ''/var/lib/cache/H1.epub'']))"
    unfolding Dune_paths none by simp
  from h a b c p show ?thesis by blast
qed

text \<open>
  Claim C9 as stated has the conversion return the path of the cached file. The
  conversions of two books succeed with one and the same result, nil, while their cache
  files differ: the result does not carry the path.
\<close>

theorem ConvertToEpub_path_counterexample:
  "fst (ConvertToEpub quiet home (inbound ''Dune'' ''H1'' []) (disk [])) = None \<and>
   fst (ConvertToEpub quiet home (inbound ''Emma'' ''H2'' []) (disk [])) = None \<and>
   cache_file home (inbound ''Dune'' ''H1'' []) = ''/var/lib/cache/H1.epub'' \<and>
   cache_file home (inbound ''Emma'' ''H2'' []) = ''/var/lib/cache/H2.epub''"
  by (simp add: Dune_paths ConvertToEpub_def cmd_Run_def quiet_def Let_def
           split: prod.splits)

end
